theory Spec2Isabelle
  imports Complex_Main "HOL-Library.Log_Nat"
begin

section \<open>The market-price survey of app.py\<close>

text \<open>
  The theory embeds the scraping part of \<^verbatim>\<open>app.py\<close>: \<^verbatim>\<open>parse_price\<close>,
  \<^verbatim>\<open>scrape_market_prices\<close> and the part of \<^verbatim>\<open>main\<close> that runs the survey and keeps its
  result in the session state. The network, the HTML parser, the clock and the user
  interface are the environment: what they return is an argument of the model, what the
  program does to them is a trace of actions.
\<close>

subsection \<open>Strings\<close>

text \<open>
  A Python \<^verbatim>\<open>str\<close> is a sequence of Unicode code points, here a list of naturals.
  \<open>cps\<close> turns an ASCII literal into its code points; the Polish letters of the source
  are written as numbers (U+0141 is 321, U+00F3 is 243, U+017A is 378 and so on).
\<close>

type_synonym pystr = "nat list"

definition cps :: "string \<Rightarrow> pystr" where
  "cps s = map of_char s"

subsection \<open>Floating-point numbers\<close>

text \<open>
  A Python \<^verbatim>\<open>float\<close> is an IEEE 754 binary64 value. Every float of this program is
  non-negative, so a value is a finite non-negative rational (one that a double
  represents), positive infinity, or not-a-number. \<open>fl q\<close> is the double nearest to the
  rational \<open>q \<ge> 0\<close>, ties to even: 53 significant bits, least exponent \<open>-1022\<close> (below it
  the spacing stays \<open>2 powi -1074\<close>), and infinity from \<open>2 ^ 1024\<close> on.
\<close>

datatype pyfloat = Finite rat | PosInf | NaN

definition round_half_even :: "rat \<Rightarrow> int" where
  "round_half_even x =
     (let f = \<lfloor>x\<rfloor>; r = x - of_int f
      in if r < 1 / 2 then f
         else if 1 / 2 < r then f + 1
         else if even f then f else f + 1)"

text \<open>\<open>binade q\<close> is the integer \<open>e\<close> with \<open>2 powi e \<le> q < 2 powi (e + 1)\<close>, for \<open>q > 0\<close>.\<close>

definition binade :: "rat \<Rightarrow> int" where
  "binade q =
     (let (a, b) = quotient_of q; d = bitlen a - bitlen b
      in if 2 powi d \<le> q then d else d - 1)"

definition fl :: "rat \<Rightarrow> pyfloat" where
  "fl q =
     (if q \<le> 0 then Finite 0
      else let e = max (binade q) (- 1022);
               u = 2 powi (e - 52);
               v = of_int (round_half_even (q / u)) * u
           in if 2 ^ 1024 \<le> v then PosInf else Finite v)"

datatype py_exn = ZeroDivisionError | OverflowError | Raised pystr

text \<open>\<^verbatim>\<open>x + y\<close> on floats.\<close>

fun fadd :: "pyfloat \<Rightarrow> pyfloat \<Rightarrow> pyfloat" where
  "fadd (Finite a) (Finite b) = fl (a + b)"
| "fadd NaN _ = NaN"
| "fadd _ NaN = NaN"
| "fadd _ _ = PosInf"

text \<open>\<^verbatim>\<open>x / y\<close> on floats: Python raises on a zero divisor, the rest is IEEE division.\<close>

fun py_truediv :: "pyfloat \<Rightarrow> pyfloat \<Rightarrow> py_exn + pyfloat" where
  "py_truediv x (Finite b) =
     (if b = 0 then Inl ZeroDivisionError
      else Inr (case x of Finite a \<Rightarrow> fl (a / b) | PosInf \<Rightarrow> PosInf | NaN \<Rightarrow> NaN))"
| "py_truediv (Finite a) PosInf = Inr (Finite 0)"
| "py_truediv _ _ = Inr NaN"

text \<open>
  The conversion of a non-negative \<^verbatim>\<open>int\<close> to \<^verbatim>\<open>float\<close>, as \<^verbatim>\<open>int + float\<close> and
  \<^verbatim>\<open>float / int\<close> perform it: the nearest double, and OverflowError where that would
  be infinite.
\<close>

definition py_int_to_float :: "nat \<Rightarrow> py_exn + pyfloat" where
  "py_int_to_float n = (case fl (of_nat n) of Finite v \<Rightarrow> Inr (Finite v) | _ \<Rightarrow> Inl OverflowError)"

text \<open>\<^verbatim>\<open>a / b\<close> on two non-negative ints: the exact quotient, rounded once.\<close>

definition py_int_truediv :: "nat \<Rightarrow> nat \<Rightarrow> py_exn + pyfloat" where
  "py_int_truediv a b =
     (if b = 0 then Inl ZeroDivisionError
      else case fl (of_nat a / of_nat b) of Finite v \<Rightarrow> Inr (Finite v) | _ \<Rightarrow> Inl OverflowError)"

text \<open>
  \<^verbatim>\<open>sum(prices)\<close>: the items are added from left to right, starting from the int 0,
  each addition rounded to a double. (CPython from 3.12 on carries a compensation term
  as well; it changes the result only when a partial sum is not exact.)
\<close>

definition py_sum :: "pyfloat list \<Rightarrow> pyfloat" where
  "py_sum xs = foldl fadd (Finite 0) xs"

text \<open>The truth value of a float in \<^verbatim>\<open>if price:\<close>: false only for zero.\<close>

fun truthy :: "pyfloat \<Rightarrow> bool" where
  "truthy (Finite q) = (q \<noteq> 0)"
| "truthy _ = True"

text \<open>\<^verbatim>\<open>x > 0\<close> on a float.\<close>

fun positive :: "pyfloat \<Rightarrow> bool" where
  "positive (Finite q) = (0 < q)"
| "positive PosInf = True"
| "positive NaN = False"

definition exn_bind :: "py_exn + 'a \<Rightarrow> ('a \<Rightarrow> py_exn + 'b) \<Rightarrow> py_exn + 'b" where
  "exn_bind r f = (case r of Inl e \<Rightarrow> Inl e | Inr x \<Rightarrow> f x)"

subsection \<open>parse\_price\<close>

text \<open>
  \<^verbatim>\<open>
  def parse_price(price_text):
      if not price_text:
          return None
      price_clean = re.sub(r'[^\d]', '', price_text.replace('\xa0', '').replace(' ', ''))
      try:
          return float(price_clean) if price_clean else None
      except ValueError:
          return None
  \<close>
  On a \<^verbatim>\<open>str\<close> pattern \<^verbatim>\<open>\d\<close> matches every Unicode decimal digit, and \<^verbatim>\<open>float\<close> reads
  every such digit by its value. The decimal digits of Unicode come in runs of ten
  consecutive code points, zero first; which runs exist depends on the Unicode database of
  the interpreter, so the list \<open>nd\<close> of the code points of the zeros is a parameter
  (\<open>[48]\<close> is ASCII alone). \<^verbatim>\<open>float\<close> of a string of digits is the correctly rounded
  value and never raises, so the \<^verbatim>\<open>except\<close> branch has no case in the model.
\<close>

definition is_decimal :: "nat list \<Rightarrow> nat \<Rightarrow> bool" where
  "is_decimal nd c = list_ex (\<lambda>z. z \<le> c \<and> c < z + 10) nd"

definition decimal_value :: "nat list \<Rightarrow> nat \<Rightarrow> nat" where
  "decimal_value nd c =
     (case filter (\<lambda>z. z \<le> c \<and> c < z + 10) nd of [] \<Rightarrow> 0 | z # _ \<Rightarrow> c - z)"

text \<open>The integer that a string of decimal digits denotes.\<close>

definition int_of_digits :: "nat list \<Rightarrow> pystr \<Rightarrow> nat" where
  "int_of_digits nd s = foldl (\<lambda>acc c. 10 * acc + decimal_value nd c) 0 s"

definition py_float_of_digits :: "nat list \<Rightarrow> pystr \<Rightarrow> pyfloat" where
  "py_float_of_digits nd s = fl (of_nat (int_of_digits nd s))"

text \<open>\<^verbatim>\<open>s.replace(ch, '')\<close> for a one-character \<^verbatim>\<open>ch\<close>.\<close>

definition replace_char :: "nat \<Rightarrow> pystr \<Rightarrow> pystr" where
  "replace_char ch s = filter (\<lambda>c. c \<noteq> ch) s"

text \<open>\<^verbatim>\<open>re.sub(r'[^\d]', '', s)\<close>.\<close>

definition re_sub_non_digits :: "nat list \<Rightarrow> pystr \<Rightarrow> pystr" where
  "re_sub_non_digits nd s = filter (is_decimal nd) s"

definition parse_price :: "nat list \<Rightarrow> pystr option \<Rightarrow> pyfloat option" where
  "parse_price nd price_text =
     (case price_text of
        None \<Rightarrow> None
      | Some t \<Rightarrow>
          if t = [] then None
          else let price_clean = re_sub_non_digits nd (replace_char 32 (replace_char 160 t))
               in if price_clean = [] then None
                  else Some (py_float_of_digits nd price_clean))"

subsection \<open>The tables\<close>

definition Lodz :: pystr where
  "Lodz = [321, 243, 100, 378]"

definition Lodz_Baluty :: pystr where
  "Lodz_Baluty = Lodz @ cps '' Ba'' @ [322] @ cps ''uty''"

definition Lodz_Gorna :: pystr where
  "Lodz_Gorna = Lodz @ cps '' G'' @ [243] @ cps ''rna''"

definition Lodz_Srodmiescie :: pystr where
  "Lodz_Srodmiescie = Lodz @ [32, 346] @ cps ''r'' @ [243] @ cps ''dmie'' @ [347] @ cps ''cie''"

definition Lodz_Widzew :: pystr where
  "Lodz_Widzew = Lodz @ cps '' Widzew''"

definition Lodz_Polesie :: pystr where
  "Lodz_Polesie = Lodz @ cps '' Polesie''"

text \<open>A dict literal is the list of its items, in the order the source writes them.\<close>

definition LOCALITY_URL_MAP :: "(pystr \<times> pystr) list" where
  "LOCALITY_URL_MAP =
     [(Lodz_Baluty, cps ''lodz-baluty''),
      (Lodz_Gorna, cps ''lodz-gorna''),
      (Lodz_Srodmiescie, cps ''lodz-srodmiescie''),
      (Lodz_Widzew, cps ''lodz-widzew''),
      (Lodz_Polesie, cps ''lodz-polesie'')]"

datatype pynum = PyInt int | PyFloat pyfloat

definition DEFAULT_MARKET_PRICES :: "(pystr \<times> pynum) list" where
  "DEFAULT_MARKET_PRICES =
     [(Lodz_Baluty, PyInt 380000),
      (Lodz_Gorna, PyInt 420000),
      (Lodz_Srodmiescie, PyInt 500000),
      (Lodz_Widzew, PyInt 450000),
      (Lodz_Polesie, PyInt 400000)]"

text \<open>\<^verbatim>\<open>DEFAULT_MARKET_PRICES.get(locality, 400000)\<close>.\<close>

definition default_price :: "pystr \<Rightarrow> pynum" where
  "default_price locality =
     (case map_of DEFAULT_MARKET_PRICES locality of Some v \<Rightarrow> v | None \<Rightarrow> PyInt 400000)"

subsection \<open>The environment and the trace\<close>

text \<open>
  What \<^verbatim>\<open>item.select_one('.result-info__price--total span')\<close> and \<^verbatim>\<open>get_text(strip=True)\<close>
  give for one listing: no price tag, the text of the tag, or an exception somewhere in the
  body of the inner \<^verbatim>\<open>try\<close>.
\<close>

datatype listing = NoPriceTag | PriceText pystr | ListingRaises

text \<open>
  What lines 67 to 71 give for one URL: a \<^verbatim>\<open>requests.RequestException\<close> (timeout,
  connection error, or the HTTPError of \<^verbatim>\<open>raise_for_status\<close>), any other exception with
  its message, or the list of the nodes that match \<^verbatim>\<open>section.search-results__item\<close>.
  The URL is fixed by the URL segment of the locality and the page number.
\<close>

datatype response = RequestException | OtherException pystr | Page "listing list"

type_synonym web = "pystr \<Rightarrow> int \<Rightarrow> response"

datatype action = Get pystr int | Sleep rat | Progress pyfloat pystr

text \<open>
  A run gives the actions performed, in order, and either the exception that ended it or
  its value.
\<close>

type_synonym 'a run = "action list \<times> (py_exn + 'a)"

definition ret :: "'a \<Rightarrow> 'a run" where
  "ret x = ([], Inr x)"

definition lift :: "py_exn + 'a \<Rightarrow> 'a run" where
  "lift r = ([], r)"

definition run_bind :: "'a run \<Rightarrow> ('a \<Rightarrow> 'b run) \<Rightarrow> 'b run" where
  "run_bind r f =
     (case r of
        (t, Inl e) \<Rightarrow> (t, Inl e)
      | (t, Inr x) \<Rightarrow> (case f x of (t', y) \<Rightarrow> (t @ t', y)))"

definition prepend :: "action list \<Rightarrow> 'a run \<Rightarrow> 'a run" where
  "prepend t r = (t @ fst r, snd r)"

text \<open>
  The progress callback: called with a fraction and a message, it returns (\<open>None\<close>) or
  raises an exception with a message.
\<close>

type_synonym callback = "pyfloat \<Rightarrow> pystr \<Rightarrow> pystr option"

subsection \<open>scrape\_market\_prices\<close>

text \<open>
  Lines 77 to 86, the loop over the listings of one page:
  \<^verbatim>\<open>
  for item in listings:
      try:
          price_total_tag = item.select_one('.result-info__price--total span')
          if price_total_tag:
              price_text = price_total_tag.get_text(strip=True).replace('\xa0', '')
              price = parse_price(price_text)
              if price:
                  prices.append(price)
      except Exception as e:
          continue
  \<close>
\<close>

fun parse_listings :: "nat list \<Rightarrow> listing list \<Rightarrow> pyfloat list \<Rightarrow> pyfloat list" where
  "parse_listings nd [] prices = prices"
| "parse_listings nd (item # items) prices =
     (case item of
        ListingRaises \<Rightarrow> parse_listings nd items prices
      | NoPriceTag \<Rightarrow> parse_listings nd items prices
      | PriceText t \<Rightarrow>
          (case parse_price nd (Some (replace_char 160 t)) of
             None \<Rightarrow> parse_listings nd items prices
           | Some price \<Rightarrow>
               if truthy price then parse_listings nd items (prices @ [price])
               else parse_listings nd items prices))"

text \<open>
  Lines 63 to 92, the loop over the pages of one locality:
  \<^verbatim>\<open>
  for page_num in range(1, pages + 1):
      url = f'{BASE_URL}/mieszkania/{url_suffix}/_l{page_num}'
      try:
          response = session.get(url, timeout=10)
          response.raise_for_status()
          soup = BeautifulSoup(response.text, 'html.parser')
          listings = soup.select('section.search-results__item')
          if not listings:
              break
          for item in listings: ...
          time.sleep(0.5)
      except requests.RequestException as e:
          continue
  \<close>
\<close>

fun scrape_pages :: "nat list \<Rightarrow> web \<Rightarrow> pystr \<Rightarrow> int list \<Rightarrow> pyfloat list \<Rightarrow> pyfloat list run" where
  "scrape_pages nd web url_suffix [] prices = ret prices"
| "scrape_pages nd web url_suffix (page_num # rest) prices =
     (case web url_suffix page_num of
        RequestException \<Rightarrow>
          prepend [Get url_suffix page_num] (scrape_pages nd web url_suffix rest prices)
      | OtherException msg \<Rightarrow> ([Get url_suffix page_num], Inl (Raised msg))
      | Page listings \<Rightarrow>
          if listings = [] then ([Get url_suffix page_num], Inr prices)
          else prepend [Get url_suffix page_num, Sleep (1 / 2)]
                 (scrape_pages nd web url_suffix rest (parse_listings nd listings prices)))"

text \<open>\<^verbatim>\<open>sum(prices) / len(prices)\<close>.\<close>

definition mean :: "pyfloat list \<Rightarrow> py_exn + pyfloat" where
  "mean prices = exn_bind (py_int_to_float (length prices)) (py_truediv (py_sum prices))"

text \<open>
  Lines 94 to 99, the price of a locality from the prices collected:
  \<^verbatim>\<open>
  if prices:
      market_prices[locality] = sum(prices) / len(prices)
  else:
      market_prices[locality] = DEFAULT_MARKET_PRICES.get(locality, 400000)
  \<close>
\<close>

definition locality_price :: "pystr \<Rightarrow> pyfloat list \<Rightarrow> py_exn + pynum" where
  "locality_price locality prices =
     (if prices \<noteq> [] then exn_bind (mean prices) (\<lambda>m. Inr (PyFloat m))
      else Inr (default_price locality))"

text \<open>
  Lines 60 to 99, the body of the loop over the localities without its two progress
  calls; the specification calls it \<^verbatim>\<open>aggregate_locality\<close>.
\<close>

definition aggregate_locality :: "nat list \<Rightarrow> web \<Rightarrow> int \<Rightarrow> pystr \<Rightarrow> pystr \<Rightarrow> pynum run" where
  "aggregate_locality nd web pages locality url_suffix =
     run_bind (scrape_pages nd web url_suffix [1..pages] [])
       (\<lambda>prices. lift (locality_price locality prices))"

text \<open>\<^verbatim>\<open>(idx + 0.1) / total_locations\<close> and \<^verbatim>\<open>(idx + 1) / total_locations\<close>.\<close>

definition start_fraction :: "nat \<Rightarrow> nat \<Rightarrow> py_exn + pyfloat" where
  "start_fraction idx total_locations =
     exn_bind (py_int_to_float idx) (\<lambda>i.
     exn_bind (py_int_to_float total_locations) (\<lambda>n. py_truediv (fadd i (fl (1 / 10))) n))"

definition done_fraction :: "nat \<Rightarrow> nat \<Rightarrow> py_exn + pyfloat" where
  "done_fraction idx total_locations = py_int_truediv (idx + 1) total_locations"

text \<open>
  \<^verbatim>\<open>if progress_callback: progress_callback(fraction, message)\<close>: without a callback
  neither the fraction nor the message is computed.
\<close>

definition notify :: "callback option \<Rightarrow> py_exn + pyfloat \<Rightarrow> pystr \<Rightarrow> unit run" where
  "notify progress_callback fraction message =
     (case progress_callback of
        None \<Rightarrow> ret ()
      | Some f \<Rightarrow>
          (case fraction of
             Inl e \<Rightarrow> ([], Inl e)
           | Inr x \<Rightarrow>
               ([Progress x message],
                case f x message of None \<Rightarrow> Inr () | Some msg \<Rightarrow> Inl (Raised msg))))"

text \<open>
  Lines 56 to 102, the loop over \<^verbatim>\<open>enumerate(LOCALITY_URL_MAP.items())\<close>; \<open>idx\<close> is the
  position of the first item of the list that is left.
\<close>

fun survey_loop ::
  "nat list \<Rightarrow> web \<Rightarrow> int \<Rightarrow> callback option \<Rightarrow> nat \<Rightarrow> nat \<Rightarrow> (pystr \<times> pystr) list \<Rightarrow>
   (pystr \<rightharpoonup> pynum) \<Rightarrow> (pystr \<rightharpoonup> pynum) run" where
  "survey_loop nd web pages cb total_locations idx [] prices_by_locality = ret prices_by_locality"
| "survey_loop nd web pages cb total_locations idx ((locality, url_suffix) # rest) prices_by_locality =
     run_bind (notify cb (start_fraction idx total_locations)
                 (cps ''Scrapowanie '' @ locality @ cps ''...'')) (\<lambda>_.
     run_bind (aggregate_locality nd web pages locality url_suffix) (\<lambda>price.
     run_bind (notify cb (done_fraction idx total_locations)
                 (cps ''Zako'' @ [324] @ cps ''czono '' @ locality)) (\<lambda>_.
     survey_loop nd web pages cb total_locations (idx + 1) rest (prices_by_locality(locality \<mapsto> price)))))"

definition scrape_market_prices ::
  "nat list \<Rightarrow> web \<Rightarrow> int \<Rightarrow> callback option \<Rightarrow> (pystr \<rightharpoonup> pynum) run" where
  "scrape_market_prices nd web pages progress_callback =
     survey_loop nd web pages progress_callback (length LOCALITY_URL_MAP) 0 LOCALITY_URL_MAP
       Map.empty"

subsection \<open>main: the survey button and the session state\<close>

text \<open>
  A key of \<^verbatim>\<open>st.session_state\<close> is absent (\<open>None\<close>) or holds a value; \<^verbatim>\<open>last_scraped\<close>
  holds \<^verbatim>\<open>None\<close> or a time.
\<close>

record session_state =
  st_market_prices :: "(pystr \<rightharpoonup> pynum) option"
  st_last_scraped :: "nat option option"
  st_scraping_in_progress :: "bool option"

text \<open>Lines 126 to 131.\<close>

definition init_session_state :: "session_state \<Rightarrow> session_state" where
  "init_session_state st =
     st\<lparr>st_market_prices :=
          (case st_market_prices st of None \<Rightarrow> Some (map_of DEFAULT_MARKET_PRICES) | Some m \<Rightarrow> Some m),
        st_last_scraped :=
          (case st_last_scraped st of None \<Rightarrow> Some None | Some t \<Rightarrow> Some t),
        st_scraping_in_progress :=
          (case st_scraping_in_progress st of None \<Rightarrow> Some False | Some b \<Rightarrow> Some b)\<rparr>"

text \<open>What the sidebar shows.\<close>

datatype ui =
  ProgressBar pynum | StatusText pystr | StatusSuccess pystr | StatusError pystr
  | SidebarSuccess pystr | SidebarError pystr

text \<open>
  \<^verbatim>\<open>update_progress\<close> sets the progress bar and the status text and returns; what it
  shows is read off the trace of the survey.
\<close>

definition update_progress :: callback where
  "update_progress progress message = None"

fun shown :: "action \<Rightarrow> ui list" where
  "shown (Progress x message) = [ProgressBar (PyFloat x), StatusText message]"
| "shown _ = []"

text \<open>\<^verbatim>\<open>str(e)\<close>.\<close>

fun exn_str :: "py_exn \<Rightarrow> pystr" where
  "exn_str (Raised msg) = msg"
| "exn_str OverflowError = cps ''int too large to convert to float''"
| "exn_str ZeroDivisionError = cps ''float division by zero''"

text \<open>
  Lines 137 to 156, the branch of the button:
  \<^verbatim>\<open>
  st.session_state.scraping_in_progress = True
  progress_bar = st.sidebar.progress(0)
  status_text = st.sidebar.empty()
  try:
      market_prices = scrape_market_prices(pages=8, progress_callback=update_progress)
      st.session_state.market_prices = market_prices
      st.session_state.last_scraped = datetime.now()
      st.session_state.scraping_in_progress = False
      progress_bar.progress(1.0)
      status_text.success(...)
      st.sidebar.success(...)
  except Exception as e:
      st.session_state.scraping_in_progress = False
      st.sidebar.error(f"... {str(e)}")
      status_text.error(...)
  \<close>
\<close>

definition on_scrape_button ::
  "nat list \<Rightarrow> web \<Rightarrow> nat \<Rightarrow> session_state \<Rightarrow> ui list \<times> session_state" where
  "on_scrape_button nd web now st =
     (let st1 = st\<lparr>st_scraping_in_progress := Some True\<rparr>;
          r = scrape_market_prices nd web 8 (Some update_progress);
          bar = ProgressBar (PyInt 0) # concat (map shown (fst r))
      in case snd r of
           Inr prices_by_locality \<Rightarrow>
             (bar @ [ProgressBar (PyFloat (Finite 1)),
                     StatusSuccess ([9989] @ cps '' Pobrano ceny rynkowe!''),
                     SidebarSuccess (cps ''Ceny rynkowe zosta'' @ [322] @ cps ''y zaktualizowane!'')],
              st1\<lparr>st_market_prices := Some prices_by_locality,
                  st_last_scraped := Some (Some now),
                  st_scraping_in_progress := Some False\<rparr>)
         | Inl e \<Rightarrow>
             (bar @ [SidebarError (cps ''B'' @ [322, 261] @ cps ''d podczas scrapowania: '' @ exn_str e),
                     StatusError ([10060] @ cps '' B'' @ [322, 261] @ cps ''d podczas scrapowania'')],
              st1\<lparr>st_scraping_in_progress := Some False\<rparr>))"

text \<open>Lines 126 to 156 of \<^verbatim>\<open>main\<close>; \<open>clicked\<close> is what the button returns.\<close>

definition main :: "nat list \<Rightarrow> web \<Rightarrow> nat \<Rightarrow> bool \<Rightarrow> session_state \<Rightarrow> ui list \<times> session_state" where
  "main nd web now clicked st =
     (let st0 = init_session_state st
      in if clicked then on_scrape_button nd web now st0 else ([], st0))"

subsection \<open>Predicates and projections of the statements\<close>

text \<open>A float that is 1 at least.\<close>

fun at_least_one :: "pyfloat \<Rightarrow> bool" where
  "at_least_one (Finite q) = (1 \<le> q)"
| "at_least_one PosInf = True"
| "at_least_one NaN = False"

text \<open>The fractions of the progress calls of a trace, in order.\<close>

fun fraction_of :: "action \<Rightarrow> pyfloat list" where
  "fraction_of (Progress x message) = [x]"
| "fraction_of _ = []"

definition fractions :: "action list \<Rightarrow> pyfloat list" where
  "fractions t = concat (map fraction_of t)"

text \<open>The progress calls of a trace.\<close>

fun is_progress :: "action \<Rightarrow> bool" where
  "is_progress (Progress x message) = True"
| "is_progress _ = False"

text \<open>\<^verbatim>\<open>x <= y\<close> on floats.\<close>

fun fle :: "pyfloat \<Rightarrow> pyfloat \<Rightarrow> bool" where
  "fle (Finite a) (Finite b) = (a \<le> b)"
| "fle (Finite a) PosInf = True"
| "fle PosInf PosInf = True"
| "fle _ _ = False"

text \<open>The value of a computation that did not raise, as a list.\<close>

fun inr_list :: "py_exn + 'a \<Rightarrow> 'a list" where
  "inr_list (Inr x) = [x]"
| "inr_list (Inl e) = []"

text \<open>The error messages of the sidebar.\<close>

fun is_error :: "ui \<Rightarrow> bool" where
  "is_error (StatusError message) = True"
| "is_error (SidebarError message) = True"
| "is_error _ = False"

text \<open>
  A listing that gives no price: it has no price tag, its processing raises, its price text
  does not parse, or its price is zero.
\<close>

fun yields_no_price :: "nat list \<Rightarrow> listing \<Rightarrow> bool" where
  "yields_no_price nd NoPriceTag = True"
| "yields_no_price nd ListingRaises = True"
| "yields_no_price nd (PriceText t) =
     (case parse_price nd (Some (replace_char 160 t)) of
        None \<Rightarrow> True
      | Some price \<Rightarrow> \<not> truthy price)"

subsection \<open>Webs and sessions of the examples\<close>

text \<open>Every request fails.\<close>

definition web_down :: web where
  "web_down url_suffix page_num = RequestException"

text \<open>The fetch of page 1 fails, page 2 has one listing, the other pages have none.\<close>

definition web_first_fails :: web where
  "web_first_fails url_suffix page_num =
     (if page_num = 1 then RequestException
      else if page_num = 2 then Page [PriceText (cps ''100 z'' @ [322])]
      else Page [])"

text \<open>Page 1 has three listings, page 2 has none, every other page has one.\<close>

definition web_three_prices :: web where
  "web_three_prices url_suffix page_num =
     (if page_num = 1
      then Page [PriceText (cps ''100 000 z'' @ [322]), PriceText (cps ''200 000 z'' @ [322]),
                 PriceText (cps ''300 000 z'' @ [322])]
      else if page_num = 2 then Page []
      else Page [PriceText (cps ''999 z'' @ [322])])"

text \<open>Page 1 has one listing without a price tag, page 2 has one listing with a price.\<close>

definition web_unpriced_page :: web where
  "web_unpriced_page url_suffix page_num =
     (if page_num = 1 then Page [NoPriceTag]
      else if page_num = 2 then Page [PriceText (cps ''100 z'' @ [322])]
      else Page [])"

text \<open>Page 1 has a listing with the price 0, one with the price 150 and one without price.\<close>

definition web_zero_price :: web where
  "web_zero_price url_suffix page_num =
     (if page_num = 1
      then Page [PriceText (cps ''0 z'' @ [322]), PriceText (cps ''150 z'' @ [322]), NoPriceTag]
      else Page [])"

text \<open>A web whose every response is an exception that is not a RequestException.\<close>

definition web_broken :: web where
  "web_broken url_suffix page_num = OtherException (cps ''boom'')"

text \<open>
  The second locality has one page with the prices 100 and 300; every other request
  fails.
\<close>

definition web_mixed :: web where
  "web_mixed url_suffix page_num =
     (if url_suffix = cps ''lodz-gorna''
      then (if page_num = 1 then Page [PriceText (cps ''100''), PriceText (cps ''300'')] else Page [])
      else RequestException)"

text \<open>
  Pages 1 to 3 have one listing each that gives no price (a zero price, a text without
  digit, no price tag), page 4 has one listing with the price 100, page 5 has no listing.
\<close>

definition web_no_price_pages :: web where
  "web_no_price_pages url_suffix page_num =
     (if page_num = 1 then Page [PriceText (cps ''0 z'' @ [322])]
      else if page_num = 2 then Page [PriceText (cps ''z'' @ [322])]
      else if page_num = 3 then Page [NoPriceTag]
      else if page_num = 4 then Page [PriceText (cps ''100 z'' @ [322])]
      else Page [])"

text \<open>The session state of a new session: no key is set.\<close>

definition new_session :: session_state where
  "new_session =
     \<lparr>st_market_prices = None, st_last_scraped = None, st_scraping_in_progress = None\<rparr>"

section \<open>Rounding to a double\<close>

lemma bitlen_rat_bounds:
  assumes "0 < a"
  shows "(2::rat) powi (bitlen a - 1) \<le> of_int a" and "(of_int a :: rat) < 2 powi bitlen a"
proof -
  have b: "2 ^ nat (bitlen a - 1) \<le> a" "a < 2 ^ nat (bitlen a)"
    using bitlen_bounds [OF assms] by auto
  have pos: "1 \<le> bitlen a"
    using assms by (simp add: bitlen_alt_def)
  have "(of_int (2 ^ nat (bitlen a - 1)) :: rat) \<le> of_int a"
    using b(1) by (simp only: of_int_le_iff)
  then show "(2::rat) powi (bitlen a - 1) \<le> of_int a"
    using pos by (simp add: power_int_def)
  have "(of_int a :: rat) < of_int (2 ^ nat (bitlen a))"
    using b(2) by (simp only: of_int_less_iff)
  then show "(of_int a :: rat) < 2 powi bitlen a"
    using pos by (simp add: power_int_def)
qed

lemma powi2_mono: "a \<le> b \<Longrightarrow> (2::rat) powi a \<le> 2 powi b"
  by (rule power_int_increasing) simp_all

lemma powi2_less_cancel: "(2::rat) powi a < 2 powi b \<Longrightarrow> a < b"
  using powi2_mono [of b a] by (cases "a < b") auto

lemma powi2_add: "(2::rat) powi a * 2 powi b = 2 powi (a + b)"
  by (simp add: power_int_add)

lemma powi2_diff: "(2::rat) powi a / 2 powi b = 2 powi (a - b)"
  by (simp add: power_int_diff)

lemma powi2_of_int_power: "(of_int (2 ^ n) :: rat) = 2 powi int n"
  by (simp add: power_int_def)

lemma binade_window:
  assumes "0 < q" and "quotient_of q = (a, b)"
  shows "(2::rat) powi (bitlen a - bitlen b - 1) < q" and "q < 2 powi (bitlen a - bitlen b + 1)"
proof -
  have bpos: "0 < b" using assms(2) by (rule quotient_of_denom_pos)
  have q: "q = of_int a / of_int b" using assms(2) by (rule quotient_of_div)
  have apos: "0 < a" using assms(1) bpos q by (simp add: zero_less_divide_iff)
  note A = bitlen_rat_bounds [OF apos] and B = bitlen_rat_bounds [OF bpos]
  have bq: "(0::rat) < of_int b" using bpos by simp
  have "(2::rat) powi (bitlen a - bitlen b - 1) * of_int b < 2 powi (bitlen a - bitlen b - 1) * 2 powi bitlen b"
    using B(2) by (simp add: mult_strict_left_mono)
  also have "\<dots> = 2 powi (bitlen a - 1)"
    by (simp add: power_int_add [symmetric])
  also have "\<dots> \<le> of_int a" by (rule A(1))
  finally show "(2::rat) powi (bitlen a - bitlen b - 1) < q"
    using bq by (simp add: q pos_less_divide_eq)
  have "(of_int a :: rat) < 2 powi bitlen a" by (rule A(2))
  also have "\<dots> = 2 powi (bitlen a - bitlen b + 1) * 2 powi (bitlen b - 1)"
    by (simp add: power_int_add [symmetric])
  also have "\<dots> \<le> 2 powi (bitlen a - bitlen b + 1) * of_int b"
    using B(1) by (simp add: mult_left_mono)
  finally show "q < 2 powi (bitlen a - bitlen b + 1)"
    using bq by (simp add: q pos_divide_less_eq)
qed

lemma binade_bounds:
  assumes "0 < q"
  shows "(2::rat) powi binade q \<le> q" and "q < 2 powi (binade q + 1)"
proof -
  obtain a b where ab: "quotient_of q = (a, b)" by (cases "quotient_of q")
  note W = binade_window [OF assms ab]
  show "(2::rat) powi binade q \<le> q"
    using W(1) by (simp add: binade_def ab Let_def)
  show "q < 2 powi (binade q + 1)"
    using W(2) by (auto simp add: binade_def ab Let_def not_le)
qed

lemma binade_unique:
  assumes "0 < q" and "(2::rat) powi e \<le> q" and "q < 2 powi (e + 1)"
  shows "binade q = e"
proof -
  note B = binade_bounds [OF assms(1)]
  have "(2::rat) powi e < 2 powi (binade q + 1)" using assms(2) B(2) by simp
  then have "e < binade q + 1" by (rule powi2_less_cancel)
  moreover have "(2::rat) powi binade q < 2 powi (e + 1)" using assms(3) B(1) by simp
  then have "binade q < e + 1" by (rule powi2_less_cancel)
  ultimately show ?thesis by simp
qed

lemma rhe_of_int: "round_half_even (of_int n) = n"
  by (simp add: round_half_even_def)

lemma rhe_ge: "of_int n \<le> x \<Longrightarrow> n \<le> round_half_even x"
proof -
  assume "of_int n \<le> x"
  then have "n \<le> \<lfloor>x\<rfloor>" by (simp add: le_floor_iff)
  then show ?thesis by (simp add: round_half_even_def Let_def)
qed

lemma rhe_le: "x \<le> of_int n \<Longrightarrow> round_half_even x \<le> n"
proof -
  assume le: "x \<le> of_int n"
  show ?thesis
  proof (cases "x = of_int n")
    case True
    then show ?thesis by (simp add: rhe_of_int)
  next
    case False
    with le have "x < of_int n" by simp
    then have "\<lfloor>x\<rfloor> < n" by (simp add: floor_less_iff)
    then show ?thesis by (simp add: round_half_even_def Let_def)
  qed
qed

lemma rhe_div:
  assumes "0 < b"
  shows "round_half_even (of_int a / of_int b) =
     (if 2 * (a mod b) < b then a div b
      else if b < 2 * (a mod b) then a div b + 1
      else if even (a div b) then a div b else a div b + 1)"
proof -
  have bq: "(0::rat) < of_int b" using assms by simp
  have "(of_int a :: rat) = of_int (a div b * b + a mod b)" by simp
  also have "\<dots> = of_int (a div b) * of_int b + of_int (a mod b)" by (simp only: of_int_add of_int_mult)
  finally have r: "(of_int a :: rat) / of_int b - of_int (a div b) = of_int (a mod b) / of_int b"
    using bq by (simp add: field_simps)
  have lt: "(of_int (a mod b) / of_int b < (1::rat) / 2) = (2 * (a mod b) < b)"
  proof -
    have "(of_int (a mod b) / of_int b < (1::rat) / 2) = ((of_int (2 * (a mod b)) :: rat) < of_int b)"
      using bq by (simp add: field_simps)
    then show ?thesis by (simp only: of_int_less_iff)
  qed
  have gt: "((1::rat) / 2 < of_int (a mod b) / of_int b) = (b < 2 * (a mod b))"
  proof -
    have "((1::rat) / 2 < of_int (a mod b) / of_int b) = ((of_int b :: rat) < of_int (2 * (a mod b)))"
      using bq by (simp add: field_simps)
    then show ?thesis by (simp only: of_int_less_iff)
  qed
  show ?thesis
    unfolding round_half_even_def Let_def floor_divide_of_int_eq r lt gt ..
qed

lemma rhe_numeral_div:
  "round_half_even (numeral a / numeral b) =
     (if 2 * (numeral a mod numeral b) < (numeral b :: int) then numeral a div numeral b
      else if (numeral b :: int) < 2 * (numeral a mod numeral b) then numeral a div numeral b + 1
      else if even (numeral a div numeral b :: int) then numeral a div numeral b
      else numeral a div numeral b + 1)"
  using rhe_div [of "numeral b" "numeral a"] by simp

lemma rhe_numeral: "round_half_even (numeral a) = numeral a"
  using rhe_of_int [of "numeral a"] by simp

lemma fl_Finite_bound: "fl q = Finite r \<Longrightarrow> r < 2 ^ 1024"
  by (auto simp add: fl_def Let_def split: if_splits)

lemma fl_unfold:
  assumes "0 < q" and "max (binade q) (- 1022) = e"
  shows "fl q =
     (if (2::rat) ^ 1024 \<le> of_int (round_half_even (q / 2 powi (e - 52))) * 2 powi (e - 52) then PosInf
      else Finite (of_int (round_half_even (q / 2 powi (e - 52))) * 2 powi (e - 52)))"
  using assms by (simp add: fl_def Let_def)

lemma fl_normal:
  assumes lo: "(2::rat) powi e \<le> q" and hi: "q < 2 powi (e + 1)"
    and e: "- 1022 \<le> e" "e < 1023"
  shows "fl q = Finite (of_int (round_half_even (q / 2 powi (e - 52))) * 2 powi (e - 52))"
proof -
  have qpos: "0 < q" using lo by (rule less_le_trans [rotated]) simp
  have b: "binade q = e" using qpos lo hi by (rule binade_unique)
  let ?u = "(2::rat) powi (e - 52)"
  have upos: "0 < ?u" by simp
  have "q / ?u \<le> 2 powi (e + 1) / ?u" using hi upos by (simp add: divide_right_mono)
  also have "\<dots> = 2 powi int 53" by (simp only: powi2_diff) simp
  also have "\<dots> = of_int (2 ^ 53)" by (simp only: powi2_of_int_power)
  finally have "round_half_even (q / ?u) \<le> 2 ^ 53" by (rule rhe_le)
  then have "(of_int (round_half_even (q / ?u)) :: rat) \<le> of_int (2 ^ 53)"
    by (simp only: of_int_le_iff)
  then have "of_int (round_half_even (q / ?u)) * ?u \<le> of_int (2 ^ 53) * ?u"
    using upos by (simp add: mult_right_mono)
  also have "of_int (2 ^ 53) * ?u = 2 powi (e + 1)"
    by (simp only: powi2_of_int_power powi2_add) (simp add: algebra_simps)
  also have "\<dots> \<le> 2 powi 1023" using e by (intro powi2_mono) simp
  also have "\<dots> < 2 powi 1024" by (rule power_int_strict_increasing) simp_all
  also have "\<dots> = 2 ^ 1024" by (simp add: power_int_def)
  finally have "\<not> (2::rat) ^ 1024 \<le> of_int (round_half_even (q / ?u)) * ?u" by simp
  moreover have "max (binade q) (- 1022) = e" using b e by simp
  ultimately show ?thesis
    using fl_unfold [OF qpos, of e] by simp
qed

lemma fl_lower:
  assumes k: "- 1022 \<le> k" and lo: "(2::rat) powi k \<le> q"
  shows "fl q = PosInf \<or> (\<exists>r. fl q = Finite r \<and> 2 powi k \<le> r)"
proof -
  have qpos: "0 < q" using lo by (rule less_le_trans [rotated]) simp
  note B = binade_bounds [OF qpos]
  have "(2::rat) powi k < 2 powi (binade q + 1)" using lo B(2) by simp
  then have "k < binade q + 1" by (rule powi2_less_cancel)
  then have kb: "k \<le> binade q" by simp
  let ?e = "binade q"
  let ?u = "(2::rat) powi (?e - 52)"
  have upos: "0 < ?u" by simp
  have "(of_int (2 ^ 52) :: rat) = 2 powi ?e / ?u"
    by (simp only: powi2_of_int_power powi2_diff) simp
  also have "\<dots> \<le> q / ?u" using B(1) upos by (simp add: divide_right_mono)
  finally have "2 ^ 52 \<le> round_half_even (q / ?u)" by (rule rhe_ge)
  then have "(of_int (2 ^ 52) :: rat) \<le> of_int (round_half_even (q / ?u))"
    by (simp only: of_int_le_iff)
  then have m: "of_int (2 ^ 52) * ?u \<le> of_int (round_half_even (q / ?u)) * ?u"
    using upos by (simp only: mult_le_cancel_right_pos)
  have "(2::rat) powi k \<le> 2 powi ?e" using kb by (rule powi2_mono)
  also have "2 powi ?e = of_int (2 ^ 52) * ?u"
    by (simp only: powi2_of_int_power powi2_add) simp
  also note m
  finally have "2 powi k \<le> of_int (round_half_even (q / ?u)) * ?u" .
  moreover have "max (binade q) (- 1022) = binade q" using k kb by simp
  ultimately show ?thesis
    using fl_unfold [OF qpos, of "binade q"] by simp
qed

lemma fl_pos:
  assumes lo: "(2::rat) powi (- 1074) \<le> q"
  shows "fl q = PosInf \<or> (\<exists>r. fl q = Finite r \<and> 0 < r)"
proof -
  have qpos: "0 < q" using lo by (rule less_le_trans [rotated]) simp
  define e where "e = max (binade q) (- 1022)"
  let ?u = "(2::rat) powi (e - 52)"
  have upos: "0 < ?u" by simp
  have "?u \<le> q"
  proof (cases "- 1022 \<le> binade q")
    case True
    then have "e = binade q" by (simp add: e_def)
    then have "?u \<le> 2 powi binade q" by (simp add: powi2_mono)
    then show ?thesis using binade_bounds(1) [OF qpos] by simp
  next
    case False
    then have "e = - 1022" by (simp add: e_def)
    then show ?thesis using lo by simp
  qed
  then have "of_int 1 \<le> q / ?u" using upos by (simp add: pos_le_divide_eq)
  then have "1 \<le> round_half_even (q / ?u)" by (rule rhe_ge)
  then have "0 < (of_int (round_half_even (q / ?u)) :: rat) * ?u" using upos by simp
  then show ?thesis
    using fl_unfold [OF qpos, of e] by (simp add: e_def)
qed

lemma fl_exact_nat:
  assumes "n < 2 ^ 53"
  shows "fl (of_nat n) = Finite (of_nat n)"
proof (cases "n = 0")
  case True
  then show ?thesis by (simp add: fl_def)
next
  case False
  let ?q = "of_nat n :: rat"
  have qpos: "0 < ?q" using False by simp
  note B = binade_bounds [OF qpos]
  have "(2::rat) powi 0 \<le> ?q" using False by simp
  also note B(2)
  finally have "0 < binade ?q + 1" by (rule powi2_less_cancel)
  then have e0: "0 \<le> binade ?q" by simp
  have "?q < of_nat (2 ^ 53)" using assms by (simp only: of_nat_less_iff)
  then have "?q < 2 powi 53" by (simp add: power_int_def)
  with B(1) have "(2::rat) powi binade ?q < 2 powi 53" by simp
  then have e1: "binade ?q < 53" by (rule powi2_less_cancel)
  define k where "k = nat (52 - binade ?q)"
  have u: "(2::rat) powi (binade ?q - 52) = 1 / 2 ^ k"
    using e0 e1 by (simp add: k_def power_int_def field_simps)
  have "?q * 2 ^ k = of_int (int n * 2 ^ k)" by simp
  then have r: "round_half_even (?q * 2 ^ k) = int n * 2 ^ k"
    by (simp only: rhe_of_int)
  have "fl ?q = Finite (of_int (round_half_even (?q / 2 powi (binade ?q - 52))) * 2 powi (binade ?q - 52))"
    using B e0 e1 by (intro fl_normal) simp_all
  then show ?thesis by (simp add: u r)
qed

lemma fl_numeral_exact:
  "(numeral k :: nat) < 2 ^ 53 \<Longrightarrow> fl (numeral k) = Finite (numeral k)"
  using fl_exact_nat [of "numeral k"] by simp

lemma fl_zero: "fl 0 = Finite 0"
  by (simp add: fl_def)

lemma fl_one: "fl 1 = Finite 1"
  using fl_exact_nat [of 1] by simp

section \<open>parse\_price\<close>

lemma int_of_digits_Nil: "int_of_digits nd [] = 0"
  by (simp add: int_of_digits_def)

lemma int_of_digits_snoc:
  "int_of_digits nd (s @ [c]) = 10 * int_of_digits nd s + decimal_value nd c"
  by (simp add: int_of_digits_def)

text \<open>\<open>int_of_digits\<close> reads a string of digits by position, the first digit the highest.\<close>

lemma int_of_digits_positional:
  "int_of_digits nd s = (\<Sum>i<length s. decimal_value nd (s ! i) * 10 ^ (length s - 1 - i))"
proof (induction s rule: rev_induct)
  case Nil
  then show ?case by (simp add: int_of_digits_Nil)
next
  case (snoc c s)
  have "(\<Sum>i<length s. decimal_value nd ((s @ [c]) ! i) * 10 ^ (length (s @ [c]) - 1 - i)) =
      (\<Sum>i<length s. 10 * (decimal_value nd (s ! i) * 10 ^ (length s - 1 - i)))"
  proof (rule sum.cong)
    fix i assume "i \<in> {..<length s}"
    then have i: "i < length s" by simp
    then have "length (s @ [c]) - 1 - i = Suc (length s - 1 - i)" by simp
    then show "decimal_value nd ((s @ [c]) ! i) * 10 ^ (length (s @ [c]) - 1 - i) =
        10 * (decimal_value nd (s ! i) * 10 ^ (length s - 1 - i))"
      using i by (simp add: nth_append)
  qed simp
  then show ?case
    by (simp add: int_of_digits_snoc snoc.IH sum_distrib_left)
qed





lemmas eval_parse = cps_def is_decimal_def int_of_digits_def decimal_value_def



section \<open>Runs\<close>

lemma run_bind_Inl [simp]: "run_bind (t, Inl e) f = (t, Inl e)"
  by (simp add: run_bind_def)

lemma run_bind_Inr [simp]: "run_bind (t, Inr x) f = prepend t (f x)"
  by (simp add: run_bind_def prepend_def split: prod.split)

lemma run_bind_ret [simp]: "run_bind (ret x) f = f x"
  by (simp add: ret_def prepend_def)

lemma prepend_pair [simp]: "prepend t (t', r) = (t @ t', r)"
  by (simp add: prepend_def)

lemma fst_prepend [simp]: "fst (prepend t r) = t @ fst r"
  by (simp add: prepend_def)

lemma snd_prepend [simp]: "snd (prepend t r) = snd r"
  by (simp add: prepend_def)

lemma fst_run_bind:
  "fst (run_bind r f) = (case snd r of Inl e \<Rightarrow> fst r | Inr x \<Rightarrow> fst r @ fst (f x))"
  by (cases r) (auto simp: split: sum.split)

lemma snd_run_bind:
  "snd (run_bind r f) = (case snd r of Inl e \<Rightarrow> Inl e | Inr x \<Rightarrow> snd (f x))"
  by (cases r) (auto simp: split: sum.split)

lemma snd_lift [simp]: "snd (lift r) = r"
  by (simp add: lift_def)

lemma fst_lift [simp]: "fst (lift r) = []"
  by (simp add: lift_def)

lemma snd_ret [simp]: "snd (ret x) = Inr x"
  by (simp add: ret_def)

lemma fst_ret [simp]: "fst (ret x) = []"
  by (simp add: ret_def)

section \<open>The loop over the pages\<close>

lemma scrape_pages_all_fail:
  "\<forall>p\<in>set ps. web s p = RequestException \<Longrightarrow>
   scrape_pages nd web s ps prices = (map (Get s) ps, Inr prices)"
  by (induction ps) (simp_all add: ret_def)

lemma aggregate_all_fail:
  assumes "\<forall>p. 1 \<le> p \<and> p \<le> pages \<longrightarrow> web s p = RequestException"
  shows "aggregate_locality nd web pages locality s =
     (map (Get s) [1..pages], Inr (default_price locality))"
proof -
  have "\<forall>p\<in>set [1..pages]. web s p = RequestException" using assms by simp
  then show ?thesis
    by (simp add: aggregate_locality_def scrape_pages_all_fail locality_price_def lift_def)
qed

lemmas locality_names =
  Lodz_def Lodz_Baluty_def Lodz_Gorna_def Lodz_Srodmiescie_def Lodz_Widzew_def Lodz_Polesie_def
  cps_def

lemma default_price_Baluty: "default_price Lodz_Baluty = PyInt 380000"
  by (simp add: default_price_def DEFAULT_MARKET_PRICES_def)

text \<open>
  C2. When every fetch of the pages 1 to \<open>pages\<close> of a locality fails, no price is
  collected and \<open>aggregate_locality\<close> returns the static default of the locality, which
  for a locality of the table is its entry in \<^verbatim>\<open>DEFAULT_MARKET_PRICES\<close>; for the first
  locality of the table that is the int 380000.
\<close>

theorem all_fetches_fail_default:
  assumes "\<forall>p. 1 \<le> p \<and> p \<le> pages \<longrightarrow> web url_suffix p = RequestException"
  shows "snd (scrape_pages nd web url_suffix [1..pages] []) = Inr [] \<and>
    snd (aggregate_locality nd web pages locality url_suffix) = Inr (default_price locality) \<and>
    ((locality, url_suffix) \<in> set LOCALITY_URL_MAP \<longrightarrow>
       map_of DEFAULT_MARKET_PRICES locality = Some (default_price locality)) \<and>
    snd (aggregate_locality nd web pages Lodz_Baluty url_suffix) = Inr (PyInt 380000)"
proof -
  have "\<forall>p\<in>set [1..pages]. web url_suffix p = RequestException" using assms by simp
  then have "snd (scrape_pages nd web url_suffix [1..pages] []) = Inr []"
    by (simp add: scrape_pages_all_fail)
  moreover have "map_of DEFAULT_MARKET_PRICES locality = Some (default_price locality)"
    if "(locality, url_suffix) \<in> set LOCALITY_URL_MAP"
    using that
    by (auto simp add: LOCALITY_URL_MAP_def default_price_def DEFAULT_MARKET_PRICES_def
        locality_names)
  ultimately show ?thesis
    using assms by (simp add: aggregate_all_fail default_price_Baluty)
qed

theorem all_fetches_fail_default_witness:
  "snd (aggregate_locality [48] web_down 8 Lodz_Baluty (cps ''lodz-baluty'')) = Inr (PyInt 380000)"
  using all_fetches_fail_default [of 8 web_down "cps ''lodz-baluty''" "[48]" Lodz_Baluty]
  by (simp add: default_price_Baluty web_down_def)

section \<open>A failed page\<close>

lemma gets_within:
  "Get s' k \<in> set (fst (scrape_pages nd web s ps prices)) \<Longrightarrow> s' = s \<and> k \<in> set ps"
  by (induction ps arbitrary: prices) (auto split: response.splits if_splits)

lemma failed_page_skipped:
  assumes "web s p = RequestException"
  shows "snd (scrape_pages nd web s (pre @ p # post) prices) =
       snd (scrape_pages nd web s (pre @ post) prices) \<and>
     filter (\<lambda>a. a \<noteq> Get s p) (fst (scrape_pages nd web s (pre @ p # post) prices)) =
       filter (\<lambda>a. a \<noteq> Get s p) (fst (scrape_pages nd web s (pre @ post) prices))"
  using assms by (induction pre arbitrary: prices) (auto split: response.splits)

lemma scrape_pages_raises:
  "snd (scrape_pages nd web s ps prices) = Inl e \<Longrightarrow>
   \<exists>q msg. q \<in> set ps \<and> web s q = OtherException msg \<and> e = Raised msg"
proof (induction ps arbitrary: prices)
  case Nil
  then show ?case by simp
next
  case (Cons a ps)
  show ?case
  proof (cases "web s a")
    case RequestException
    with Cons.prems have "snd (scrape_pages nd web s ps prices) = Inl e" by simp
    from Cons.IH [OF this] show ?thesis by auto
  next
    case (OtherException msg)
    with Cons.prems show ?thesis by auto
  next
    case (Page ls)
    with Cons.prems have "snd (scrape_pages nd web s ps (parse_listings nd ls prices)) = Inl e"
      by (simp split: if_splits)
    from Cons.IH [OF this] show ?thesis by auto
  qed
qed

lemma fst_aggregate:
  "fst (aggregate_locality nd web pages locality s) = fst (scrape_pages nd web s [1..pages] [])"
  by (simp add: aggregate_locality_def fst_run_bind split: sum.split)

lemma snd_aggregate:
  "snd (aggregate_locality nd web pages locality s) =
     exn_bind (snd (scrape_pages nd web s [1..pages] [])) (locality_price locality)"
  by (simp add: aggregate_locality_def snd_run_bind exn_bind_def split: sum.split)

lemma py_int_to_float_cases:
  "py_int_to_float n = Inl OverflowError \<or> (\<exists>v. py_int_to_float n = Inr (Finite v) \<and> (0 < n \<longrightarrow> 1 \<le> v) \<and> v < 2 ^ 1024)"
proof (cases "n = 0")
  case True
  then show ?thesis by (simp add: py_int_to_float_def fl_zero)
next
  case False
  then have "(2::rat) powi 0 \<le> of_nat n" by simp
  from fl_lower [OF _ this] have "fl (of_nat n) = PosInf \<or> (\<exists>r. fl (of_nat n) = Finite r \<and> 1 \<le> r)"
    by simp
  then show ?thesis
  proof
    assume "fl (of_nat n) = PosInf"
    then show ?thesis by (simp add: py_int_to_float_def)
  next
    assume "\<exists>r. fl (of_nat n) = Finite r \<and> 1 \<le> r"
    then obtain r where r: "fl (of_nat n) = Finite r" "1 \<le> r" by blast
    from r(1) have "r < 2 ^ 1024" by (rule fl_Finite_bound)
    with r show ?thesis by (simp add: py_int_to_float_def)
  qed
qed

lemma py_truediv_nonzero: "v \<noteq> 0 \<Longrightarrow> \<exists>y. py_truediv x (Finite v) = Inr y"
  by (cases x) auto

lemma mean_raises:
  assumes "prices \<noteq> []" and "mean prices = Inl e"
  shows "e = OverflowError"
proof -
  from py_int_to_float_cases [of "length prices"] show ?thesis
  proof
    assume "py_int_to_float (length prices) = Inl OverflowError"
    with assms(2) show ?thesis by (simp add: mean_def exn_bind_def)
  next
    assume "\<exists>v. py_int_to_float (length prices) = Inr (Finite v) \<and>
      (0 < length prices \<longrightarrow> 1 \<le> v) \<and> v < 2 ^ 1024"
    then obtain v where v: "py_int_to_float (length prices) = Inr (Finite v)" "v \<noteq> 0"
      using assms(1) by auto
    from py_truediv_nonzero [OF v(2)] obtain y where "py_truediv (py_sum prices) (Finite v) = Inr y"
      by blast
    with assms(2) v(1) show ?thesis by (simp add: mean_def exn_bind_def)
  qed
qed

lemma locality_price_raises: "locality_price locality prices = Inl e \<Longrightarrow> e = OverflowError"
  by (cases "mean prices")
     (auto simp add: locality_price_def exn_bind_def split: if_splits dest: mean_raises)

lemma upto_around:
  "1 \<le> p \<Longrightarrow> p \<le> pages \<Longrightarrow> [1..pages] = [1..p - 1] @ p # [p + 1..pages]"
  by (rule upto_split3)

lemma first_request:
  "\<exists>t. fst (scrape_pages nd web s (q # post) prices) = Get s q # t"
  by (cases "web s q") (auto simp add: prepend_def)

lemma next_page_requested:
  assumes "web s p = RequestException" and "p \<notin> set pre"
  shows "Get s p \<in> set (fst (scrape_pages nd web s (pre @ p # q # post) prices)) \<Longrightarrow>
    Get s q \<in> set (fst (scrape_pages nd web s (pre @ p # q # post) prices))"
  using assms(2)
proof (induction pre arbitrary: prices)
  case Nil
  from first_request [of nd web s q post prices] obtain t where
    "fst (scrape_pages nd web s (q # post) prices) = Get s q # t" by blast
  then show ?case using assms(1) by simp
next
  case (Cons a pre)
  then show ?case
    by (cases "web s a") (auto split: if_splits)
qed

lemma upto_next:
  assumes "1 \<le> p" and "p < pages"
  shows "[1..pages] = [1..p - 1] @ p # (p + 1) # [p + 2..pages]"
proof -
  have "[1..pages] = [1..p - 1] @ p # [p + 1..pages]"
    using assms by (intro upto_split3) simp_all
  also have "[p + 1..pages] = (p + 1) # [p + 2..pages]"
    using assms by (simp add: upto_rec1 add.commute)
  finally show ?thesis .
qed

lemma aggregate_next_page:
  assumes "web s p = RequestException" and "1 \<le> p" and "p < pages"
    and "Get s p \<in> set (fst (aggregate_locality nd web pages locality s))"
  shows "Get s (p + 1) \<in> set (fst (aggregate_locality nd web pages locality s))"
proof -
  have "p \<notin> set [1..p - 1]" by simp
  from next_page_requested [where web = web and s = s and p = p and pre = "[1..p - 1]" and nd = nd
      and q = "p + 1" and post = "[p + 2..pages]" and prices = "[]", OF assms(1) this] assms(4)
  show ?thesis by (simp add: fst_aggregate upto_next [OF assms(2,3)])
qed

text \<open>
  C4. A page whose fetch raises a \<^verbatim>\<open>RequestException\<close> neither ends the pagination nor aborts
  the locality: the result of \<open>aggregate_locality\<close> is the result that the other pages
  of the budget give, in their order, so the failure alone never brings the default; the
  requests and delays of the run are those of the other pages, with the failed request in
  between; when the failed page is not the last of the budget, the request of the next page
  follows; and an exception leaves \<open>aggregate_locality\<close> only when some page raises one
  that is not a \<^verbatim>\<open>RequestException\<close>, or as the OverflowError of the mean.
\<close>

theorem failed_page_continues:
  assumes "web url_suffix p = RequestException" and "1 \<le> p" and "p \<le> pages"
  shows "snd (aggregate_locality nd web pages locality url_suffix) =
       exn_bind (snd (scrape_pages nd web url_suffix ([1..p - 1] @ [p + 1..pages]) []))
         (locality_price locality) \<and>
     filter (\<lambda>a. a \<noteq> Get url_suffix p) (fst (aggregate_locality nd web pages locality url_suffix)) =
       fst (scrape_pages nd web url_suffix ([1..p - 1] @ [p + 1..pages]) []) \<and>
     (p < pages \<and> Get url_suffix p \<in> set (fst (aggregate_locality nd web pages locality url_suffix)) \<longrightarrow>
        Get url_suffix (p + 1) \<in> set (fst (aggregate_locality nd web pages locality url_suffix))) \<and>
     (\<forall>e. snd (aggregate_locality nd web pages locality url_suffix) = Inl e \<longrightarrow>
        e = OverflowError \<or>
        (\<exists>q msg. 1 \<le> q \<and> q \<le> pages \<and> web url_suffix q = OtherException msg \<and> e = Raised msg))"
proof -
  let ?rest = "[1..p - 1] @ [p + 1..pages]"
  note split = upto_around [OF assms(2,3)]
  note skip = failed_page_skipped [where web = web and s = url_suffix and p = p and nd = nd
      and pre = "[1..p - 1]" and post = "[p + 1..pages]" and prices = "[]", OF assms(1)]
  have a: "snd (aggregate_locality nd web pages locality url_suffix) =
      exn_bind (snd (scrape_pages nd web url_suffix ?rest [])) (locality_price locality)"
    using skip by (simp add: snd_aggregate split)
  have "Get url_suffix p \<notin> set (fst (scrape_pages nd web url_suffix ?rest []))"
    using gets_within [of url_suffix p nd web url_suffix ?rest "[]"] by auto
  then have "filter (\<lambda>a. a \<noteq> Get url_suffix p) (fst (scrape_pages nd web url_suffix ?rest [])) =
      fst (scrape_pages nd web url_suffix ?rest [])"
    by (simp add: filter_id_conv) metis
  then have b: "filter (\<lambda>a. a \<noteq> Get url_suffix p)
        (fst (aggregate_locality nd web pages locality url_suffix)) =
      fst (scrape_pages nd web url_suffix ?rest [])"
    using skip by (simp add: fst_aggregate split)
  have c: "e = OverflowError \<or>
      (\<exists>q msg. 1 \<le> q \<and> q \<le> pages \<and> web url_suffix q = OtherException msg \<and> e = Raised msg)"
    if "snd (aggregate_locality nd web pages locality url_suffix) = Inl e" for e
  proof (cases "snd (scrape_pages nd web url_suffix [1..pages] [])")
    case (Inl e')
    with that have "e' = e" by (simp add: snd_aggregate exn_bind_def)
    with Inl scrape_pages_raises [of nd web url_suffix "[1..pages]" "[]" e] show ?thesis by auto
  next
    case (Inr prices)
    with that have "locality_price locality prices = Inl e" by (simp add: snd_aggregate exn_bind_def)
    then show ?thesis by (simp add: locality_price_raises)
  qed
  have d: "Get url_suffix (p + 1) \<in> set (fst (aggregate_locality nd web pages locality url_suffix))"
    if "p < pages"
      and "Get url_suffix p \<in> set (fst (aggregate_locality nd web pages locality url_suffix))"
    using assms(1,2) that by (rule aggregate_next_page)
  show ?thesis using a b c d by blast
qed

lemma py_int_to_float_exact: "n < 2 ^ 53 \<Longrightarrow> py_int_to_float n = Inr (Finite (of_nat n))"
  by (simp add: py_int_to_float_def fl_exact_nat)

lemmas eval_prices =
  eval_parse parse_price_def replace_char_def re_sub_non_digits_def py_float_of_digits_def
  fl_numeral_exact fl_zero fl_one

lemma upto_one_numeral: "[1..numeral n] = 1 # [2..numeral n]"
  by (simp add: upto_rec1)

lemmas eval_mean = upto_one_numeral mean_def py_sum_def exn_bind_def locality_price_def py_int_to_float_exact
  fl_numeral_exact fl_zero fl_one

text \<open>
  The fetch of page 1 fails, page 2 has the price 100 and page 3 has no listing: the result
  is the mean 100.0, not the default.
\<close>

theorem failed_page_continues_witness:
  "snd (aggregate_locality [48] web_first_fails 8 Lodz_Baluty (cps ''lodz-baluty'')) =
     Inr (PyFloat (Finite 100)) \<and>
   filter (\<lambda>a. a \<noteq> Get (cps ''lodz-baluty'') 1)
     (fst (aggregate_locality [48] web_first_fails 8 Lodz_Baluty (cps ''lodz-baluty''))) =
     [Get (cps ''lodz-baluty'') 2, Sleep (1 / 2), Get (cps ''lodz-baluty'') 3] \<and>
   Get (cps ''lodz-baluty'') 2 \<in>
     set (fst (aggregate_locality [48] web_first_fails 8 Lodz_Baluty (cps ''lodz-baluty'')))"
  using failed_page_continues [of web_first_fails "cps ''lodz-baluty''" 1 8 "[48]" Lodz_Baluty]
  by (simp add: web_first_fails_def aggregate_locality_def lift_def eval_prices eval_mean)

section \<open>A page without listings\<close>

lemma stop_at_empty:
  "web s p = Page [] \<Longrightarrow>
   scrape_pages nd web s (pre @ p # post) prices = scrape_pages nd web s (pre @ [p]) prices"
  by (induction pre arbitrary: prices) (auto simp add: ret_def split: response.splits)

lemma empty_page_adds_nothing:
  "web s p = Page [] \<Longrightarrow>
   snd (scrape_pages nd web s (pre @ [p]) prices) = snd (scrape_pages nd web s pre prices)"
  by (induction pre arbitrary: prices) (auto simp add: ret_def split: response.splits)

lemma upto_until:
  "1 \<le> p \<Longrightarrow> [1..p] = [1..p - 1] @ [p]"
  using upto_rec2 [of 1 p] by simp

lemma no_price_adds_nothing:
  "list_all (yields_no_price nd) listings \<Longrightarrow> parse_listings nd listings prices = prices"
proof (induction listings)
  case Nil
  then show ?case by simp
next
  case (Cons item items)
  then show ?case by (cases item) (auto split: option.splits)
qed

lemma next_page_after_listings:
  assumes "web s p = Page ls" and "ls \<noteq> []" and "p \<notin> set pre"
  shows "Get s p \<in> set (fst (scrape_pages nd web s (pre @ p # q # post) prices)) \<Longrightarrow>
    Get s q \<in> set (fst (scrape_pages nd web s (pre @ p # q # post) prices))"
  using assms(3)
proof (induction pre arbitrary: prices)
  case Nil
  from first_request [of nd web s q post "parse_listings nd ls prices"] obtain t where
    "fst (scrape_pages nd web s (q # post) (parse_listings nd ls prices)) = Get s q # t" by blast
  then show ?case using assms(1,2) by simp
next
  case (Cons a pre)
  then show ?case
    by (cases "web s a") (auto split: if_splits)
qed

lemma aggregate_next_after_listings:
  assumes "web s p = Page ls" and "ls \<noteq> []" and "1 \<le> p" and "p < pages"
    and "Get s p \<in> set (fst (aggregate_locality nd web pages locality s))"
  shows "Get s (p + 1) \<in> set (fst (aggregate_locality nd web pages locality s))"
proof -
  have "p \<notin> set [1..p - 1]" by simp
  from next_page_after_listings [where web = web and s = s and p = p and ls = ls
      and pre = "[1..p - 1]" and nd = nd and q = "p + 1" and post = "[p + 2..pages]"
      and prices = "[]", OF assms(1,2) this] assms(5)
  show ?thesis by (simp add: fst_aggregate upto_next [OF assms(3,4)])
qed

lemma unpriced_page_skipped:
  assumes "web s p = Page ls" and "ls \<noteq> []" and "list_all (yields_no_price nd) ls"
  shows "snd (scrape_pages nd web s (pre @ p # post) prices) =
    snd (scrape_pages nd web s (pre @ post) prices)"
  using assms
  by (induction pre arbitrary: prices) (auto simp add: no_price_adds_nothing split: response.splits)

lemma aggregate_unpriced_page:
  assumes "web s p = Page ls" and "ls \<noteq> []" and "list_all (yields_no_price nd) ls"
    and "1 \<le> p" and "p \<le> pages"
  shows "snd (aggregate_locality nd web pages locality s) =
    exn_bind (snd (scrape_pages nd web s ([1..p - 1] @ [p + 1..pages]) [])) (locality_price locality)"
  using unpriced_page_skipped [where web = web and s = s and p = p and ls = ls and nd = nd
      and pre = "[1..p - 1]" and post = "[p + 1..pages]" and prices = "[]", OF assms(1,2,3)]
  by (simp add: snd_aggregate upto_around [OF assms(4,5)])


lemma parse_listings_extends:
  "\<exists>new. parse_listings nd listings prices = prices @ new"
proof (induction listings arbitrary: prices)
  case Nil
  then show ?case by simp
next
  case (Cons item items)
  show ?case
    using Cons.IH [of prices] Cons.IH [of "prices @ [x]" for x]
    by (cases item) (auto split: option.splits)
qed

lemma no_price_iff:
  "(parse_listings nd listings [] = []) = list_all (yields_no_price nd) listings"
proof
  assume "list_all (yields_no_price nd) listings"
  then show "parse_listings nd listings [] = []" by (rule no_price_adds_nothing)
next
  assume "parse_listings nd listings [] = []"
  then show "list_all (yields_no_price nd) listings"
  proof (induction listings)
    case Nil
    then show ?case by simp
  next
    case (Cons item items)
    show ?case
    proof (cases item)
      case NoPriceTag
      with Cons show ?thesis by simp
    next
      case ListingRaises
      with Cons show ?thesis by simp
    next
      case (PriceText t)
      show ?thesis
      proof (cases "parse_price nd (Some (replace_char 160 t))")
        case None
        with PriceText Cons show ?thesis by simp
      next
        case (Some price)
        show ?thesis
        proof (cases "truthy price")
          case False
          with PriceText Some Cons show ?thesis by simp
        next
          case True
          from parse_listings_extends [of nd items "[price]"] obtain new where
            "parse_listings nd items [price] = [price] @ new" by blast
          with PriceText Some True Cons.prems show ?thesis by simp
        qed
      qed
    qed
  qed
qed

text \<open>
  C3, as amended. The pagination of a locality stops at a page that is fetched and has no
  listing node: with such a page \<open>p\<close> within the budget, \<open>aggregate_locality\<close> does and
  returns what it does and returns with the budget \<open>p\<close>, it requests no page after \<open>p\<close>,
  and its result is the price that lines 94 to 99 give for the prices collected before
  \<open>p\<close>: their mean, or the default when there is none. A page that has listings does
  not stop the pagination, whatever its listings give: when the page is requested and is
  not the last of the budget, the next page is requested. A page gives no price exactly
  when each of its listings has no price tag, raises, or has a price text that does not
  parse or parses to zero; such a page with listings leaves the collected prices as they
  are, and the result is the one that the other pages of the budget give.
\<close>

theorem empty_page_stops:
  "(web url_suffix p = Page [] \<and> 1 \<le> p \<and> p \<le> pages \<longrightarrow>
      aggregate_locality nd web pages locality url_suffix =
        aggregate_locality nd web p locality url_suffix \<and>
      (\<forall>k. p < k \<longrightarrow>
         Get url_suffix k \<notin> set (fst (aggregate_locality nd web pages locality url_suffix))) \<and>
      snd (aggregate_locality nd web pages locality url_suffix) =
        exn_bind (snd (scrape_pages nd web url_suffix [1..p - 1] [])) (locality_price locality)) \<and>
   (web url_suffix p = Page listings \<and> listings \<noteq> [] \<and> 1 \<le> p \<and> p < pages \<and>
    Get url_suffix p \<in> set (fst (aggregate_locality nd web pages locality url_suffix)) \<longrightarrow>
      Get url_suffix (p + 1) \<in> set (fst (aggregate_locality nd web pages locality url_suffix))) \<and>
   (parse_listings nd listings [] = []) = list_all (yields_no_price nd) listings \<and>
   (web url_suffix p = Page listings \<and> listings \<noteq> [] \<and> parse_listings nd listings [] = [] \<and>
    1 \<le> p \<and> p \<le> pages \<longrightarrow>
      parse_listings nd listings prices = prices \<and>
      snd (aggregate_locality nd web pages locality url_suffix) =
        exn_bind (snd (scrape_pages nd web url_suffix ([1..p - 1] @ [p + 1..pages]) []))
          (locality_price locality))"
proof -
  have stops: "aggregate_locality nd web pages locality url_suffix =
        aggregate_locality nd web p locality url_suffix \<and>
      (\<forall>k. p < k \<longrightarrow>
         Get url_suffix k \<notin> set (fst (aggregate_locality nd web pages locality url_suffix))) \<and>
      snd (aggregate_locality nd web pages locality url_suffix) =
        exn_bind (snd (scrape_pages nd web url_suffix [1..p - 1] [])) (locality_price locality)"
    if empty: "web url_suffix p = Page []" and lo: "1 \<le> p" and hi: "p \<le> pages"
  proof -
    have same: "scrape_pages nd web url_suffix [1..pages] [] = scrape_pages nd web url_suffix [1..p] []"
      using stop_at_empty [where web = web and s = url_suffix and p = p and nd = nd
          and pre = "[1..p - 1]" and post = "[p + 1..pages]" and prices = "[]", OF empty]
      by (simp add: upto_around [OF lo hi] upto_until [OF lo])
    then have a: "aggregate_locality nd web pages locality url_suffix =
        aggregate_locality nd web p locality url_suffix"
      by (simp add: aggregate_locality_def)
    have b: "Get url_suffix k \<notin> set (fst (aggregate_locality nd web pages locality url_suffix))"
      if "p < k" for k
      using that gets_within [of url_suffix k nd web url_suffix "[1..p]" "[]"]
      by (auto simp add: fst_aggregate same)
    have c: "snd (aggregate_locality nd web pages locality url_suffix) =
        exn_bind (snd (scrape_pages nd web url_suffix [1..p - 1] [])) (locality_price locality)"
      using empty_page_adds_nothing [where web = web and s = url_suffix and p = p and nd = nd
          and pre = "[1..p - 1]" and prices = "[]", OF empty]
      by (simp add: snd_aggregate same upto_until [OF lo])
    show ?thesis using a b c by blast
  qed
  have goes_on: "Get url_suffix (p + 1) \<in> set (fst (aggregate_locality nd web pages locality url_suffix))"
    if "web url_suffix p = Page listings" and "listings \<noteq> []" and "1 \<le> p" and "p < pages"
      and "Get url_suffix p \<in> set (fst (aggregate_locality nd web pages locality url_suffix))"
    using that by (rule aggregate_next_after_listings)
  have unpriced: "parse_listings nd listings prices = prices \<and>
      snd (aggregate_locality nd web pages locality url_suffix) =
        exn_bind (snd (scrape_pages nd web url_suffix ([1..p - 1] @ [p + 1..pages]) []))
          (locality_price locality)"
    if page: "web url_suffix p = Page listings" and ne: "listings \<noteq> []"
      and none: "parse_listings nd listings [] = []" and lo: "1 \<le> p" and hi: "p \<le> pages"
  proof -
    from none have all: "list_all (yields_no_price nd) listings" by (simp add: no_price_iff)
    from all have "parse_listings nd listings prices = prices" by (rule no_price_adds_nothing)
    moreover have "snd (aggregate_locality nd web pages locality url_suffix) =
        exn_bind (snd (scrape_pages nd web url_suffix ([1..p - 1] @ [p + 1..pages]) []))
          (locality_price locality)"
      using page ne all lo hi by (rule aggregate_unpriced_page)
    ultimately show ?thesis by blast
  qed
  show ?thesis using stops goes_on unpriced no_price_iff [of nd listings] by blast
qed

text \<open>
  The example of the specification: page 1 has the prices 100000, 200000 and 300000, page 2
  has no listing, and the pages after it have one. And a locality whose first three pages
  have listings that give no price (a zero price, a text without digit, no price tag): the
  pagination goes on to the price of page 4 and stops at page 5, which has no listing.
\<close>

theorem empty_page_stops_witness:
  "aggregate_locality [48] web_three_prices 8 Lodz_Baluty (cps ''lodz-baluty'') =
     ([Get (cps ''lodz-baluty'') 1, Sleep (1 / 2), Get (cps ''lodz-baluty'') 2],
      Inr (PyFloat (Finite 200000))) \<and>
   parse_listings [48] [PriceText (cps ''0 z'' @ [322])] [] = [] \<and>
   aggregate_locality [48] web_no_price_pages 8 Lodz_Baluty (cps ''lodz-baluty'') =
     ([Get (cps ''lodz-baluty'') 1, Sleep (1 / 2), Get (cps ''lodz-baluty'') 2, Sleep (1 / 2),
       Get (cps ''lodz-baluty'') 3, Sleep (1 / 2), Get (cps ''lodz-baluty'') 4, Sleep (1 / 2),
       Get (cps ''lodz-baluty'') 5],
      Inr (PyFloat (Finite 100)))"
  using empty_page_stops [of web_three_prices "cps ''lodz-baluty''" 2 8 "[48]" Lodz_Baluty]
    empty_page_stops [of web_no_price_pages "cps ''lodz-baluty''" 1 8 "[48]" Lodz_Baluty
      "[PriceText (cps ''0 z'' @ [322])]" "[]"]
  by (simp add: web_three_prices_def web_no_price_pages_def aggregate_locality_def lift_def
      eval_prices eval_mean)

text \<open>
  C3 as stated fails on a page that has listings but no price: the first page here gives
  no price, and the second page is fetched all the same.
\<close>

theorem empty_prices_go_on_counterexample:
  "web_unpriced_page (cps ''lodz-baluty'') 1 = Page [NoPriceTag] \<and>
   parse_listings [48] [NoPriceTag] [] = [] \<and>
   aggregate_locality [48] web_unpriced_page 8 Lodz_Baluty (cps ''lodz-baluty'') =
     ([Get (cps ''lodz-baluty'') 1, Sleep (1 / 2), Get (cps ''lodz-baluty'') 2, Sleep (1 / 2),
       Get (cps ''lodz-baluty'') 3],
      Inr (PyFloat (Finite 100)))"
  by (simp add: web_unpriced_page_def aggregate_locality_def lift_def eval_prices eval_mean)

section \<open>Only positive prices\<close>

lemma fl_at_least_one: "1 \<le> q \<Longrightarrow> at_least_one (fl q)"
  using fl_lower [of 0 q] by auto

lemma parse_price_at_least_one:
  assumes "parse_price nd t = Some x" and "truthy x"
  shows "at_least_one x"
proof -
  from assms(1) obtain n :: nat where x: "x = fl (of_nat n)"
    by (auto simp add: parse_price_def py_float_of_digits_def Let_def split: option.splits if_splits)
  show ?thesis
  proof (cases "n = 0")
    case True
    with x assms(2) show ?thesis by (simp add: fl_zero)
  next
    case False
    then have "(1::rat) \<le> of_nat n" by simp
    then show ?thesis unfolding x by (rule fl_at_least_one)
  qed
qed

lemma parse_listings_appends:
  "\<exists>new. parse_listings nd listings prices = prices @ new \<and> list_all at_least_one new"
proof (induction listings arbitrary: prices)
  case Nil
  then show ?case by simp
next
  case (Cons item items)
  show ?case
  proof (cases item)
    case NoPriceTag
    then show ?thesis using Cons.IH [of prices] by simp
  next
    case ListingRaises
    then show ?thesis using Cons.IH [of prices] by simp
  next
    case (PriceText t)
    show ?thesis
    proof (cases "parse_price nd (Some (replace_char 160 t))")
      case None
      then show ?thesis using PriceText Cons.IH [of prices] by simp
    next
      case (Some price)
      show ?thesis
      proof (cases "truthy price")
        case False
        then show ?thesis using PriceText Some Cons.IH [of prices] by simp
      next
        case True
        from Cons.IH [of "prices @ [price]"] obtain new where
          new: "parse_listings nd items (prices @ [price]) = (prices @ [price]) @ new"
            "list_all at_least_one new" by blast
        have "at_least_one price" using Some True by (rule parse_price_at_least_one)
        then have "list_all at_least_one (price # new)" using new(2) by simp
        moreover have "parse_listings nd (item # items) prices = prices @ price # new"
          using PriceText Some True new(1) by simp
        ultimately show ?thesis by blast
      qed
    qed
  qed
qed

lemma parse_listings_at_least_one:
  "list_all at_least_one prices \<Longrightarrow> list_all at_least_one (parse_listings nd listings prices)"
  using parse_listings_appends [of nd listings prices] by auto

lemma scrape_pages_at_least_one:
  "snd (scrape_pages nd web s ps prices) = Inr prices' \<Longrightarrow> list_all at_least_one prices \<Longrightarrow>
   list_all at_least_one prices'"
proof (induction ps arbitrary: prices)
  case Nil
  then show ?case by simp
next
  case (Cons p ps)
  show ?case
  proof (cases "web s p")
    case RequestException
    with Cons.prems have "snd (scrape_pages nd web s ps prices) = Inr prices'" by simp
    then show ?thesis using Cons.prems(2) by (rule Cons.IH)
  next
    case (OtherException msg)
    with Cons.prems show ?thesis by simp
  next
    case (Page ls)
    show ?thesis
    proof (cases "ls = []")
      case True
      with Page Cons.prems show ?thesis by simp
    next
      case False
      with Page Cons.prems
      have "snd (scrape_pages nd web s ps (parse_listings nd ls prices)) = Inr prices'" by simp
      then show ?thesis
        using parse_listings_at_least_one [OF Cons.prems(2)] by (rule Cons.IH)
    qed
  qed
qed

lemma fadd_at_least_one:
  "at_least_one x \<Longrightarrow> at_least_one y \<Longrightarrow> at_least_one (fadd x y)"
  by (cases x; cases y) (simp_all add: fl_at_least_one)

lemma foldl_fadd_at_least_one:
  "at_least_one acc \<Longrightarrow> list_all at_least_one xs \<Longrightarrow> at_least_one (foldl fadd acc xs)"
  by (induction xs arbitrary: acc) (simp_all add: fadd_at_least_one)

lemma py_sum_at_least_one:
  assumes "prices \<noteq> []" and "list_all at_least_one prices"
  shows "at_least_one (py_sum prices)"
proof -
  from assms(1) obtain x xs where p: "prices = x # xs" by (cases prices) auto
  have "at_least_one (fadd (Finite 0) x)"
    using assms(2) p by (cases x) (simp_all add: fl_at_least_one)
  then show ?thesis
    using assms(2) p by (simp add: py_sum_def foldl_fadd_at_least_one)
qed

lemma quotient_positive:
  assumes "1 \<le> a" and "1 \<le> v" and "v < 2 ^ 1024"
  shows "positive (fl (a / v))"
proof -
  have "(2::rat) powi (- 1074) \<le> 2 powi (- 1024)" by (rule powi2_mono) simp
  also have "\<dots> = 1 / 2 ^ 1024" by (simp add: power_int_minus field_simps)
  also have "\<dots> \<le> a / v" using assms by (intro frac_le) simp_all
  finally show ?thesis using fl_pos [of "a / v"] by auto
qed

lemma mean_positive:
  assumes "prices \<noteq> []" and "list_all at_least_one prices" and "mean prices = Inr m"
  shows "positive m"
proof -
  from py_int_to_float_cases [of "length prices"] assms(1,3)
  obtain v where v: "py_int_to_float (length prices) = Inr (Finite v)" "1 \<le> v" "v < 2 ^ 1024"
    by (auto simp add: mean_def exn_bind_def)
  have m: "py_truediv (py_sum prices) (Finite v) = Inr m"
    using assms(3) v(1) by (simp add: mean_def exn_bind_def)
  from py_sum_at_least_one [OF assms(1,2)] show ?thesis
  proof (cases "py_sum prices")
    case (Finite a)
    with \<open>at_least_one (py_sum prices)\<close> have "1 \<le> a" by simp
    then have "positive (fl (a / v))" using v(2,3) by (rule quotient_positive)
    with m Finite v(2) show ?thesis by auto
  next
    case PosInf
    with m v(2) show ?thesis by auto
  next
    case NaN
    with \<open>at_least_one (py_sum prices)\<close> show ?thesis by simp
  qed
qed

lemma default_price_is_int: "default_price locality \<noteq> PyFloat m"
  by (simp add: default_price_def DEFAULT_MARKET_PRICES_def)

lemma at_least_one_positive: "at_least_one x \<Longrightarrow> positive x"
  by (cases x) simp_all

text \<open>
  C10. A price text that parses to 0 is skipped as one that does not parse; what the loop
  over the listings appends to the collected prices are prices greater than zero (each
  is 1 at least, or infinite); and a mean that \<open>aggregate_locality\<close> returns is greater
  than zero.
\<close>

theorem mean_is_positive:
  "(parse_price nd (Some (replace_char 160 t)) = Some (Finite 0) \<longrightarrow>
      parse_listings nd (PriceText t # items) prices = parse_listings nd items prices) \<and>
   (parse_price nd (Some (replace_char 160 t)) = None \<longrightarrow>
      parse_listings nd (PriceText t # items) prices = parse_listings nd items prices) \<and>
   (\<exists>new. parse_listings nd listings prices = prices @ new \<and> list_all positive new) \<and>
   (snd (aggregate_locality nd web pages locality url_suffix) = Inr (PyFloat m) \<longrightarrow> positive m)"
proof -
  from parse_listings_appends [of nd listings prices] obtain new where
    new: "parse_listings nd listings prices = prices @ new" "list_all at_least_one new" by blast
  from new(2) have "list_all positive new"
    by (simp add: list_all_iff at_least_one_positive)
  with new(1) have a: "\<exists>new. parse_listings nd listings prices = prices @ new \<and> list_all positive new"
    by blast
  have b: "positive m" if r: "snd (aggregate_locality nd web pages locality url_suffix) = Inr (PyFloat m)"
  proof -
    from r obtain collected where
      c: "snd (scrape_pages nd web url_suffix [1..pages] []) = Inr collected"
        "locality_price locality collected = Inr (PyFloat m)"
      by (auto simp add: snd_aggregate exn_bind_def split: sum.splits)
    from c(2) have ne: "collected \<noteq> []" and mn: "mean collected = Inr m"
      by (auto simp add: locality_price_def exn_bind_def default_price_is_int
          split: if_splits sum.splits)
    have "list_all at_least_one collected"
      using c(1) by (rule scrape_pages_at_least_one) simp
    with ne show ?thesis using mn by (rule mean_positive)
  qed
  show ?thesis using a b by simp
qed

theorem mean_is_positive_witness:
  "parse_price [48] (Some (replace_char 160 (cps ''0 z'' @ [322]))) = Some (Finite 0) \<and>
   snd (aggregate_locality [48] web_zero_price 8 Lodz_Baluty (cps ''lodz-baluty'')) =
     Inr (PyFloat (Finite 150)) \<and>
   positive (Finite 150)"
  using mean_is_positive [of "[48]" "cps ''0 z'' @ [322]" "[]" "[]" "[]" web_zero_price 8
      Lodz_Baluty "cps ''lodz-baluty''" "Finite 150"]
  by (simp add: web_zero_price_def aggregate_locality_def lift_def eval_prices eval_mean)

section \<open>The progress fractions\<close>

lemma fl_tenth: "fl (1 / 10) = Finite (3602879701896397 / 36028797018963968)"
  by (simp add: fl_normal [where e = "-4"] rhe_numeral_div)

lemma start_fraction_0: "start_fraction 0 5 = Inr (Finite (5764607523034235 / 288230376151711744))"
proof -
  have a: "fl (3602879701896397 / 36028797018963968) = Finite (3602879701896397 / 36028797018963968)"
    by (simp add: fl_normal [where e = "-4"] rhe_numeral_div rhe_numeral)
  have b: "fl (3602879701896397 / 180143985094819840) = Finite (5764607523034235 / 288230376151711744)"
    by (simp add: fl_normal [where e = "-6"] rhe_numeral_div rhe_numeral)
  show ?thesis
    by (simp add: start_fraction_def exn_bind_def py_int_to_float_exact fl_tenth a b)
qed

lemma done_fraction_0: "done_fraction 0 5 = Inr (Finite (3602879701896397 / 18014398509481984))"
proof -
  have "fl (1 / 5) = Finite (3602879701896397 / 18014398509481984)"
    by (simp add: fl_normal [where e = "-3"] rhe_numeral_div rhe_numeral)
  then show ?thesis
    by (simp add: done_fraction_def py_int_truediv_def)
qed

lemma start_fraction_1: "start_fraction (Suc 0) 5 = Inr (Finite (3963167672086037 / 18014398509481984))"
proof -
  have a: "fl (39631676720860365 / 36028797018963968) = Finite (2476979795053773 / 2251799813685248)"
    by (simp add: fl_normal [where e = "0"] rhe_numeral_div rhe_numeral)
  have b: "fl (2476979795053773 / 11258999068426240) = Finite (3963167672086037 / 18014398509481984)"
    by (simp add: fl_normal [where e = "-3"] rhe_numeral_div rhe_numeral)
  show ?thesis
    by (simp add: start_fraction_def exn_bind_def py_int_to_float_exact fl_tenth a b)
qed

lemma done_fraction_1: "done_fraction (Suc 0) 5 = Inr (Finite (3602879701896397 / 9007199254740992))"
proof -
  have "fl (2 / 5) = Finite (3602879701896397 / 9007199254740992)"
    by (simp add: fl_normal [where e = "-2"] rhe_numeral_div rhe_numeral)
  then show ?thesis
    by (simp add: done_fraction_def py_int_truediv_def)
qed

lemma start_fraction_2: "start_fraction (Suc (Suc 0)) 5 = Inr (Finite (3783023686991217 / 9007199254740992))"
proof -
  have a: "fl (75660473739824333 / 36028797018963968) = Finite (4728779608739021 / 2251799813685248)"
    by (simp add: fl_normal [where e = "1"] rhe_numeral_div rhe_numeral)
  have b: "fl (4728779608739021 / 11258999068426240) = Finite (3783023686991217 / 9007199254740992)"
    by (simp add: fl_normal [where e = "-2"] rhe_numeral_div rhe_numeral)
  show ?thesis
    by (simp add: start_fraction_def exn_bind_def py_int_to_float_exact fl_tenth a b)
qed

lemma done_fraction_2: "done_fraction (Suc (Suc 0)) 5 = Inr (Finite (5404319552844595 / 9007199254740992))"
proof -
  have "fl (3 / 5) = Finite (5404319552844595 / 9007199254740992)"
    by (simp add: fl_normal [where e = "-1"] rhe_numeral_div rhe_numeral)
  then show ?thesis
    by (simp add: done_fraction_def py_int_truediv_def)
qed

lemma start_fraction_3: "start_fraction (Suc (Suc (Suc 0))) 5 = Inr (Finite (5584463537939415 / 9007199254740992))"
proof -
  have a: "fl (111689270758788301 / 36028797018963968) = Finite (6980579422424269 / 2251799813685248)"
    by (simp add: fl_normal [where e = "1"] rhe_numeral_div rhe_numeral)
  have b: "fl (6980579422424269 / 11258999068426240) = Finite (5584463537939415 / 9007199254740992)"
    by (simp add: fl_normal [where e = "-1"] rhe_numeral_div rhe_numeral)
  show ?thesis
    by (simp add: start_fraction_def exn_bind_def py_int_to_float_exact fl_tenth a b)
qed

lemma done_fraction_3: "done_fraction (Suc (Suc (Suc 0))) 5 = Inr (Finite (3602879701896397 / 4503599627370496))"
proof -
  have "fl (4 / 5) = Finite (3602879701896397 / 4503599627370496)"
    by (simp add: fl_normal [where e = "-1"] rhe_numeral_div rhe_numeral)
  then show ?thesis
    by (simp add: done_fraction_def py_int_truediv_def)
qed

lemma start_fraction_4: "start_fraction (Suc (Suc (Suc (Suc 0)))) 5 = Inr (Finite (7385903388887613 / 9007199254740992))"
proof -
  have a: "fl (147718067777752269 / 36028797018963968) = Finite (2308094809027379 / 562949953421312)"
    by (simp add: fl_normal [where e = "2"] rhe_numeral_div rhe_numeral)
  have b: "fl (2308094809027379 / 2814749767106560) = Finite (7385903388887613 / 9007199254740992)"
    by (simp add: fl_normal [where e = "-1"] rhe_numeral_div rhe_numeral)
  show ?thesis
    by (simp add: start_fraction_def exn_bind_def py_int_to_float_exact fl_tenth a b)
qed

lemma done_fraction_4: "done_fraction (Suc (Suc (Suc (Suc 0)))) 5 = Inr (Finite 1)"
  by (simp add: done_fraction_def py_int_truediv_def fl_one)

lemma fractions_append [simp]: "fractions (t @ t') = fractions t @ fractions t'"
  by (simp add: fractions_def)

lemma fractions_Nil [simp]: "fractions [] = []"
  by (simp add: fractions_def)

lemma fractions_scrape_pages [simp]: "fractions (fst (scrape_pages nd web s ps prices)) = []"
  by (induction ps arbitrary: prices) (auto simp add: fractions_def split: response.splits)

lemma fractions_aggregate [simp]: "fractions (fst (aggregate_locality nd web pages locality s)) = []"
  by (simp add: fst_aggregate)

lemma fractions_notify [simp]:
  "fractions (fst (notify (Some f) fraction message)) = inr_list fraction"
  by (cases fraction) (simp_all add: notify_def fractions_def)

lemma notify_returns:
  "snd (notify (Some f) fraction message) = Inr u \<Longrightarrow> \<exists>x. fraction = Inr x"
  by (cases fraction) (simp_all add: notify_def)

lemma fractions_run_bind:
  "fractions (fst (run_bind r k)) =
     fractions (fst r) @ (case snd r of Inl e \<Rightarrow> [] | Inr x \<Rightarrow> fractions (fst (k x)))"
  by (simp add: fst_run_bind split: sum.split)

lemma expected_fractions_Cons:
  "concat (map g [idx..<idx + length (item # items)]) =
     g idx @ concat (map g [Suc idx..<Suc idx + length items])"
  using upt_conv_Cons [of idx "idx + length (item # items)"] by (simp del: upt_Suc)

lemma fractions_survey_prefix:
  "\<exists>more. concat (map (\<lambda>i. inr_list (start_fraction i n) @ inr_list (done_fraction i n))
             [idx..<idx + length items]) =
     fractions (fst (survey_loop nd web pages (Some f) n idx items m0)) @ more"
proof (induction items arbitrary: idx m0)
  case Nil
  then show ?case by simp
next
  case (Cons item items)
  obtain locality s where item: "item = (locality, s)" by (cases item)
  show ?case
    unfolding expected_fractions_Cons
    using Cons.IH [of "Suc idx"]
    by (auto simp add: item fractions_run_bind simp del: upt_Suc split: sum.splits)
qed

lemma fractions_survey_complete:
  "snd (survey_loop nd web pages (Some f) n idx items m0) = Inr m \<Longrightarrow>
   fractions (fst (survey_loop nd web pages (Some f) n idx items m0)) =
     concat (map (\<lambda>i. inr_list (start_fraction i n) @ inr_list (done_fraction i n))
       [idx..<idx + length items])"
proof (induction items arbitrary: idx m0)
  case Nil
  then show ?case by simp
next
  case (Cons item items)
  obtain locality s where item: "item = (locality, s)" by (cases item)
  show ?case
    unfolding expected_fractions_Cons
    using Cons.prems Cons.IH [of "Suc idx"]
    by (auto simp add: item fractions_run_bind snd_run_bind simp del: upt_Suc split: sum.splits)
qed

lemma notify_None [simp]: "notify None fraction message = ret ()"
  by (simp add: notify_def)

lemma fractions_survey_None:
  "fractions (fst (survey_loop nd web pages None n idx items m0)) = []"
proof (induction items arbitrary: idx m0)
  case Nil
  then show ?case by simp
next
  case (Cons item items)
  obtain locality s where item: "item = (locality, s)" by (cases item)
  show ?case
    using Cons.IH by (auto simp add: item fractions_run_bind split: sum.splits)
qed

lemmas fraction_values =
  start_fraction_0 done_fraction_0 start_fraction_1 done_fraction_1 start_fraction_2
  done_fraction_2 start_fraction_3 done_fraction_3 start_fraction_4 done_fraction_4

lemma length_LOCALITY_URL_MAP: "length LOCALITY_URL_MAP = 5"
  by (simp add: LOCALITY_URL_MAP_def)

lemma expected_fractions:
  "concat (map (\<lambda>i. inr_list (start_fraction i 5) @ inr_list (done_fraction i 5))
     [0..<0 + 5]) =
   [Finite (5764607523034235 / 288230376151711744), Finite (3602879701896397 / 18014398509481984),
    Finite (3963167672086037 / 18014398509481984), Finite (3602879701896397 / 9007199254740992),
    Finite (3783023686991217 / 9007199254740992), Finite (5404319552844595 / 9007199254740992),
    Finite (5584463537939415 / 9007199254740992), Finite (3602879701896397 / 4503599627370496),
    Finite (7385903388887613 / 9007199254740992), Finite 1]"
  by (simp add: upt_rec fraction_values)

lemma notify_quiet:
  "f x message = None \<Longrightarrow> notify (Some f) (Inr x) message = ([Progress x message], Inr ())"
  by (simp add: notify_def)

lemma scrape_unfold:
  "scrape_market_prices nd web pages cb = survey_loop nd web pages cb 5 0 LOCALITY_URL_MAP Map.empty"
  by (simp add: scrape_market_prices_def length_LOCALITY_URL_MAP)

text \<open>
  C6. In every run of the survey the fractions passed to the progress callback never
  decrease and lie between 0 and 1; when the run returns and there is a callback, there
  are such fractions and the last of them is 1.0.
\<close>

theorem progress_fractions_monotone:
  "sorted_wrt fle (fractions (fst (scrape_market_prices nd web pages cb))) \<and>
   list_all (\<lambda>x. fle (Finite 0) x \<and> fle x (Finite 1))
     (fractions (fst (scrape_market_prices nd web pages cb))) \<and>
   (snd (scrape_market_prices nd web pages (Some f)) = Inr m \<longrightarrow>
      fractions (fst (scrape_market_prices nd web pages (Some f))) \<noteq> [] \<and>
      last (fractions (fst (scrape_market_prices nd web pages (Some f)))) = Finite 1)"
proof -
  let ?fr = "fractions (fst (scrape_market_prices nd web pages cb))"
  have "\<exists>more.
     [Finite (5764607523034235 / 288230376151711744), Finite (3602879701896397 / 18014398509481984),
      Finite (3963167672086037 / 18014398509481984), Finite (3602879701896397 / 9007199254740992),
      Finite (3783023686991217 / 9007199254740992), Finite (5404319552844595 / 9007199254740992),
      Finite (5584463537939415 / 9007199254740992), Finite (3602879701896397 / 4503599627370496),
      Finite (7385903388887613 / 9007199254740992), Finite 1] = ?fr @ more"
  proof (cases cb)
    case None
    then show ?thesis by (simp add: scrape_market_prices_def fractions_survey_None)
  next
    case (Some g)
    show ?thesis
      using fractions_survey_prefix [of 5 0 LOCALITY_URL_MAP nd web pages g Map.empty]
      unfolding expected_fractions Some scrape_market_prices_def length_LOCALITY_URL_MAP .
  qed
  then obtain more where more:
    "[Finite (5764607523034235 / 288230376151711744), Finite (3602879701896397 / 18014398509481984),
      Finite (3963167672086037 / 18014398509481984), Finite (3602879701896397 / 9007199254740992),
      Finite (3783023686991217 / 9007199254740992), Finite (5404319552844595 / 9007199254740992),
      Finite (5584463537939415 / 9007199254740992), Finite (3602879701896397 / 4503599627370496),
      Finite (7385903388887613 / 9007199254740992), Finite 1] = ?fr @ more" by blast
  have "sorted_wrt fle (?fr @ more)" unfolding more [symmetric] by simp
  then have a: "sorted_wrt fle ?fr" by (simp add: sorted_wrt_append)
  have "list_all (\<lambda>x. fle (Finite 0) x \<and> fle x (Finite 1)) (?fr @ more)"
    unfolding more [symmetric] by simp
  then have b: "list_all (\<lambda>x. fle (Finite 0) x \<and> fle x (Finite 1)) ?fr" by simp
  have c: "fractions (fst (scrape_market_prices nd web pages (Some f))) \<noteq> [] \<and>
      last (fractions (fst (scrape_market_prices nd web pages (Some f)))) = Finite 1"
    if "snd (scrape_market_prices nd web pages (Some f)) = Inr m"
    using fractions_survey_complete [of nd web pages f 5 0 LOCALITY_URL_MAP Map.empty m] that
    unfolding expected_fractions scrape_market_prices_def length_LOCALITY_URL_MAP by simp
  show ?thesis using a b c by blast
qed

lemma default_prices:
  "default_price Lodz_Baluty = PyInt 380000"
  "default_price Lodz_Gorna = PyInt 420000"
  "default_price Lodz_Srodmiescie = PyInt 500000"
  "default_price Lodz_Widzew = PyInt 450000"
  "default_price Lodz_Polesie = PyInt 400000"
  by (simp_all add: default_price_def DEFAULT_MARKET_PRICES_def locality_names)

lemma web_down_fails: "\<forall>p. 1 \<le> p \<and> p \<le> pages \<longrightarrow> web_down s p = RequestException"
  by (simp add: web_down_def)

lemma update_progress_quiet: "\<forall>x message. update_progress x message = None"
  by (simp add: update_progress_def)

lemmas eval_survey =
  scrape_unfold LOCALITY_URL_MAP_def aggregate_all_fail [OF web_down_fails] default_prices
  notify_quiet [OF update_progress_quiet [rule_format]] fraction_values

text \<open>The run in which every request fails, with the callback of \<open>main\<close>.\<close>

theorem progress_fractions_monotone_witness:
  "snd (scrape_market_prices [48] web_down 8 (Some update_progress)) =
     Inr (Map.empty(Lodz_Baluty \<mapsto> PyInt 380000, Lodz_Gorna \<mapsto> PyInt 420000,
       Lodz_Srodmiescie \<mapsto> PyInt 500000, Lodz_Widzew \<mapsto> PyInt 450000,
       Lodz_Polesie \<mapsto> PyInt 400000)) \<and>
   fractions (fst (scrape_market_prices [48] web_down 8 (Some update_progress))) =
     [Finite (5764607523034235 / 288230376151711744), Finite (3602879701896397 / 18014398509481984),
      Finite (3963167672086037 / 18014398509481984), Finite (3602879701896397 / 9007199254740992),
      Finite (3783023686991217 / 9007199254740992), Finite (5404319552844595 / 9007199254740992),
      Finite (5584463537939415 / 9007199254740992), Finite (3602879701896397 / 4503599627370496),
      Finite (7385903388887613 / 9007199254740992), Finite 1] \<and>
   last (fractions (fst (scrape_market_prices [48] web_down 8 (Some update_progress)))) = Finite 1"
  using progress_fractions_monotone [of "[48]" web_down 8 "Some update_progress" update_progress
      "Map.empty(Lodz_Baluty \<mapsto> PyInt 380000, Lodz_Gorna \<mapsto> PyInt 420000,
       Lodz_Srodmiescie \<mapsto> PyInt 500000, Lodz_Widzew \<mapsto> PyInt 450000,
       Lodz_Polesie \<mapsto> PyInt 400000)"]
  by (simp add: eval_survey fractions_def upto_one_numeral)

section \<open>The callback\<close>

lemma no_progress_scrape_pages:
  "filter (\<lambda>a. \<not> is_progress a) (fst (scrape_pages nd web s ps prices)) =
     fst (scrape_pages nd web s ps prices)"
  by (induction ps arbitrary: prices) (auto split: response.splits)

lemma no_progress_aggregate:
  "filter (\<lambda>a. \<not> is_progress a) (fst (aggregate_locality nd web pages locality s)) =
     fst (aggregate_locality nd web pages locality s)"
  by (simp add: fst_aggregate no_progress_scrape_pages)

lemma callback_irrelevant:
  assumes "\<forall>x message. f x message = None"
    and "\<forall>i. idx \<le> i \<and> i < idx + length items \<longrightarrow>
           (\<exists>x. start_fraction i n = Inr x) \<and> (\<exists>y. done_fraction i n = Inr y)"
  shows "snd (survey_loop nd web pages (Some f) n idx items m0) =
       snd (survey_loop nd web pages None n idx items m0) \<and>
     filter (\<lambda>a. \<not> is_progress a) (fst (survey_loop nd web pages (Some f) n idx items m0)) =
       fst (survey_loop nd web pages None n idx items m0)"
  using assms(2)
proof (induction items arbitrary: idx m0)
  case Nil
  then show ?case by simp
next
  case (Cons item items)
  obtain locality s where item: "item = (locality, s)" by (cases item)
  from Cons.prems obtain x y where
    xy: "start_fraction idx n = Inr x" "done_fraction idx n = Inr y" by force
  have rest: "\<forall>i. Suc idx \<le> i \<and> i < Suc idx + length items \<longrightarrow>
      (\<exists>x. start_fraction i n = Inr x) \<and> (\<exists>y. done_fraction i n = Inr y)"
    using Cons.prems by simp
  note IH = Cons.IH [OF rest]
  obtain t r where ag: "aggregate_locality nd web pages locality s = (t, r)"
    by (cases "aggregate_locality nd web pages locality s")
  have t: "filter (\<lambda>a. \<not> is_progress a) t = t"
    using no_progress_aggregate [of nd web pages locality s] by (simp add: ag)
  have quiet: "notify (Some f) (Inr z) message = ([Progress z message], Inr ())" for z message
    using assms(1) by (simp add: notify_quiet)
  show ?case
  proof (cases r)
    case (Inl e)
    then show ?thesis
      by (simp add: item xy quiet ag t)
  next
    case (Inr price)
    note step = IH [of "m0(locality \<mapsto> price)"]
    from Inr show ?thesis
      by (simp add: item xy quiet ag t step) (simp add: fun_upd_def)
  qed
qed

lemma fractions_empty_iff: "(fractions t = []) = (\<not> list_ex is_progress t)"
proof (induction t)
  case Nil
  then show ?case by simp
next
  case (Cons a t)
  then show ?case by (cases a) (simp_all add: fractions_def)
qed

lemma below_five:
  "i < 5 \<Longrightarrow> i = 0 \<or> i = Suc 0 \<or> i = Suc (Suc 0) \<or> i = Suc (Suc (Suc 0)) \<or>
     i = Suc (Suc (Suc (Suc 0)))"
  by arith

lemma fractions_defined:
  "\<forall>i. 0 \<le> i \<and> i < 0 + length LOCALITY_URL_MAP \<longrightarrow>
     (\<exists>x. start_fraction i 5 = Inr x) \<and> (\<exists>y. done_fraction i 5 = Inr y)"
proof (intro allI impI)
  fix i :: nat
  assume "0 \<le> i \<and> i < 0 + length LOCALITY_URL_MAP"
  then have "i < 5" by (simp add: length_LOCALITY_URL_MAP)
  from below_five [OF this]
  show "(\<exists>x. start_fraction i 5 = Inr x) \<and> (\<exists>y. done_fraction i 5 = Inr y)"
    by (auto simp add: fraction_values)
qed

text \<open>
  C8. A callback that returns normally has no effect on the survey: the run with it and
  the run without callback end alike (the same mapping, or the same exception) and make
  the same requests and delays in the same order; and the run without callback makes no
  progress call.
\<close>

theorem callback_has_no_effect:
  assumes "\<forall>x message. f x message = None"
  shows "snd (scrape_market_prices nd web pages (Some f)) =
       snd (scrape_market_prices nd web pages None) \<and>
     filter (\<lambda>a. \<not> is_progress a) (fst (scrape_market_prices nd web pages (Some f))) =
       fst (scrape_market_prices nd web pages None) \<and>
     \<not> list_ex is_progress (fst (scrape_market_prices nd web pages None))"
  using callback_irrelevant [OF assms fractions_defined, of nd web pages Map.empty]
    fractions_survey_None [of nd web pages 5 0 LOCALITY_URL_MAP Map.empty]
  by (simp add: scrape_unfold fractions_empty_iff)

theorem callback_has_no_effect_witness:
  "snd (scrape_market_prices [48] web_three_prices 8 (Some update_progress)) =
     snd (scrape_market_prices [48] web_three_prices 8 None) \<and>
   filter (\<lambda>a. \<not> is_progress a)
     (fst (scrape_market_prices [48] web_three_prices 8 (Some update_progress))) =
     fst (scrape_market_prices [48] web_three_prices 8 None)"
  using callback_has_no_effect [of update_progress "[48]" web_three_prices 8]
  by (simp add: update_progress_def)

section \<open>The result of the survey\<close>

lemma locality_price_cases:
  "locality_price locality prices = Inr v \<Longrightarrow>
   v = default_price locality \<or> (\<exists>x. prices \<noteq> [] \<and> mean prices = Inr x \<and> v = PyFloat x)"
  by (auto simp add: locality_price_def exn_bind_def split: if_splits sum.splits)

lemma aggregate_value:
  "snd (aggregate_locality nd web pages locality s) = Inr v \<Longrightarrow>
   \<exists>prices. locality_price locality prices = Inr v"
  by (auto simp add: snd_aggregate exn_bind_def split: sum.splits)

lemma survey_step:
  assumes "snd (survey_loop nd web pages cb n idx ((locality, s) # items) m0) = Inr m"
  shows "\<exists>price. snd (aggregate_locality nd web pages locality s) = Inr price \<and>
     snd (survey_loop nd web pages cb n (Suc idx) items (m0(locality \<mapsto> price))) = Inr m"
  using assms by (auto simp add: snd_run_bind split: sum.splits)

lemma survey_result:
  "snd (survey_loop nd web pages cb n idx items m0) = Inr m \<Longrightarrow>
   dom m = dom m0 \<union> fst ` set items \<and>
   (\<forall>locality v. m locality = Some v \<longrightarrow>
      m0 locality = Some v \<or> (\<exists>prices. locality_price locality prices = Inr v))"
proof (induction items arbitrary: idx m0)
  case Nil
  then show ?case by simp
next
  case (Cons item items)
  obtain locality s where item: "item = (locality, s)" by (cases item)
  from survey_step [OF Cons.prems [unfolded item]] obtain price where
    price: "snd (aggregate_locality nd web pages locality s) = Inr price"
    and rest: "snd (survey_loop nd web pages cb n (Suc idx) items (m0(locality \<mapsto> price))) = Inr m"
    by blast
  note IH = Cons.IH [OF rest]
  from aggregate_value [OF price] obtain prices where
    prices: "locality_price locality prices = Inr price" by blast
  have "dom m = dom m0 \<union> fst ` set (item # items)"
    using IH by (auto simp add: item)
  moreover have "m0 k = Some v \<or> (\<exists>prices. locality_price k prices = Inr v)"
    if "m k = Some v" for k v
  proof -
    from IH that have "(m0(locality \<mapsto> price)) k = Some v \<or>
        (\<exists>prices. locality_price k prices = Inr v)" by blast
    then show ?thesis using prices by (auto split: if_splits)
  qed
  ultimately show ?case by blast
qed

lemma py_int_to_float_small:
  assumes "n < 2 ^ 1023"
  shows "\<exists>v. py_int_to_float n = Inr (Finite v)"
proof (cases "n = 0")
  case True
  then show ?thesis by (simp add: py_int_to_float_def fl_zero)
next
  case False
  let ?q = "of_nat n :: rat"
  have qpos: "0 < ?q" using False by simp
  note B = binade_bounds [OF qpos]
  have "(2::rat) powi 0 \<le> ?q" using False by simp
  also note B(2)
  finally have "0 < binade ?q + 1" by (rule powi2_less_cancel)
  then have e0: "- 1022 \<le> binade ?q" by simp
  have "?q < of_nat (2 ^ 1023)" using assms by (simp only: of_nat_less_iff)
  also have "(of_nat (2 ^ 1023) :: rat) = 2 powi 1023" by (simp add: power_int_def)
  finally have "(2::rat) powi binade ?q < 2 powi 1023" using B(1) by simp
  then have e1: "binade ?q < 1023" by (rule powi2_less_cancel)
  from fl_normal [OF B e0 e1] show ?thesis by (simp add: py_int_to_float_def)
qed

lemma mean_returns:
  assumes "prices \<noteq> []" and "length prices < 2 ^ 1023"
  shows "\<exists>m. mean prices = Inr m"
proof -
  from py_int_to_float_small [OF assms(2)] obtain v where
    v: "py_int_to_float (length prices) = Inr (Finite v)" by blast
  with py_int_to_float_cases [of "length prices"] assms(1) have "v \<noteq> 0" by auto
  from py_truediv_nonzero [OF this, of "py_sum prices"] v show ?thesis
    by (simp add: mean_def exn_bind_def)
qed

lemma locality_price_returns:
  "length prices < 2 ^ 1023 \<Longrightarrow> \<exists>v. locality_price locality prices = Inr v"
  using mean_returns [of prices] by (auto simp add: locality_price_def exn_bind_def)

lemma length_parse_listings:
  "length (parse_listings nd listings prices) \<le> length prices + length listings"
proof (induction listings arbitrary: prices)
  case Nil
  then show ?case by simp
next
  case (Cons item items)
  show ?case
    using Cons.IH [of prices] Cons.IH [of "prices @ [x]" for x]
    by (cases item) (auto split: option.splits)
qed

lemma length_scrape_pages:
  assumes "\<forall>p ls. web s p = Page ls \<longrightarrow> length ls \<le> B"
  shows "snd (scrape_pages nd web s ps prices) = Inr prices' \<Longrightarrow>
    length prices' \<le> length prices + length ps * B"
proof (induction ps arbitrary: prices)
  case Nil
  then show ?case by simp
next
  case (Cons p ps)
  show ?case
  proof (cases "web s p")
    case RequestException
    with Cons.prems have "snd (scrape_pages nd web s ps prices) = Inr prices'" by simp
    from Cons.IH [OF this] show ?thesis by simp
  next
    case (OtherException msg)
    with Cons.prems show ?thesis by simp
  next
    case (Page ls)
    show ?thesis
    proof (cases "ls = []")
      case True
      with Page Cons.prems show ?thesis by simp
    next
      case False
      with Page Cons.prems
      have "snd (scrape_pages nd web s ps (parse_listings nd ls prices)) = Inr prices'" by simp
      from Cons.IH [OF this]
      have "length prices' \<le> length (parse_listings nd ls prices) + length ps * B" .
      also have "length (parse_listings nd ls prices) \<le> length prices + length ls"
        by (rule length_parse_listings)
      also have "length ls \<le> B" using assms Page by blast
      finally show ?thesis by simp
    qed
  qed
qed

lemma aggregate_returns:
  assumes "\<forall>p msg. web s p \<noteq> OtherException msg"
    and "\<forall>p ls. web s p = Page ls \<longrightarrow> length ls \<le> B"
    and "nat pages * B < 2 ^ 1023"
  shows "\<exists>v. snd (aggregate_locality nd web pages locality s) = Inr v"
proof (cases "snd (scrape_pages nd web s [1..pages] [])")
  case (Inl e)
  from scrape_pages_raises [OF this] assms(1) show ?thesis by blast
next
  case (Inr prices)
  from length_scrape_pages [OF assms(2) Inr] have "length prices \<le> nat pages * B" by simp
  with assms(3) have "length prices < 2 ^ 1023" by simp
  from locality_price_returns [OF this, of locality] Inr show ?thesis
    by (auto simp add: snd_aggregate exn_bind_def)
qed

lemma survey_returns:
  assumes "\<forall>s p msg. web s p \<noteq> OtherException msg"
    and "\<forall>s p ls. web s p = Page ls \<longrightarrow> length ls \<le> B"
    and "nat pages * B < 2 ^ 1023"
  shows "\<exists>m. snd (survey_loop nd web pages None n idx items m0) = Inr m"
proof (induction items arbitrary: idx m0)
  case Nil
  then show ?case by simp
next
  case (Cons item items)
  obtain locality s where item: "item = (locality, s)" by (cases item)
  have "\<exists>v. snd (aggregate_locality nd web pages locality s) = Inr v"
    using assms by (intro aggregate_returns) auto
  then obtain v where v: "snd (aggregate_locality nd web pages locality s) = Inr v" by blast
  from Cons.IH obtain m where
    "snd (survey_loop nd web pages None n (idx + 1) items (m0(locality \<mapsto> v))) = Inr m"
    by blast
  with v show ?case
    by (simp add: item snd_run_bind)
qed

lemma known_localities:
  "fst ` set LOCALITY_URL_MAP =
     {Lodz_Baluty, Lodz_Gorna, Lodz_Srodmiescie, Lodz_Widzew, Lodz_Polesie}"
  by (simp add: LOCALITY_URL_MAP_def)

lemma card_known_localities:
  "card {Lodz_Baluty, Lodz_Gorna, Lodz_Srodmiescie, Lodz_Widzew, Lodz_Polesie} = 5"
  by (simp add: locality_names)

lemma survey_entries:
  "snd (survey_loop nd web pages cb n idx items m0) = Inr m \<Longrightarrow> distinct (map fst items) \<Longrightarrow>
   (\<forall>k. k \<notin> fst ` set items \<longrightarrow> m k = m0 k) \<and>
   (\<forall>locality s. (locality, s) \<in> set items \<longrightarrow>
      (\<exists>v. snd (aggregate_locality nd web pages locality s) = Inr v \<and> m locality = Some v))"
proof (induction items arbitrary: idx m0)
  case Nil
  then show ?case by simp
next
  case (Cons item items)
  obtain locality s where item: "item = (locality, s)" by (cases item)
  from survey_step [OF Cons.prems(1) [unfolded item]] obtain price where
    price: "snd (aggregate_locality nd web pages locality s) = Inr price"
    and rest: "snd (survey_loop nd web pages cb n (Suc idx) items (m0(locality \<mapsto> price))) = Inr m"
    by blast
  from Cons.prems(2) have d: "distinct (map fst items)" and fresh: "locality \<notin> fst ` set items"
    by (simp_all add: item)
  from Cons.IH [OF rest d]
  have other: "\<forall>k. k \<notin> fst ` set items \<longrightarrow> m k = (m0(locality \<mapsto> price)) k"
    and tied: "\<forall>l t. (l, t) \<in> set items \<longrightarrow>
      (\<exists>v. snd (aggregate_locality nd web pages l t) = Inr v \<and> m l = Some v)"
    by blast+
  from other fresh have head: "m locality = Some price" by simp
  have a: "\<forall>k. k \<notin> fst ` set (item # items) \<longrightarrow> m k = m0 k"
    using other by (simp add: item)
  have b: "\<exists>v. snd (aggregate_locality nd web pages l t) = Inr v \<and> m l = Some v"
    if "(l, t) \<in> set (item # items)" for l t
  proof (cases "(l, t) = (locality, s)")
    case True
    with price head show ?thesis by simp
  next
    case False
    with that have "(l, t) \<in> set items" by (auto simp add: item)
    with tied show ?thesis by blast
  qed
  show ?case using a b by blast
qed

lemma distinct_localities: "distinct (map fst LOCALITY_URL_MAP)"
  by (simp add: LOCALITY_URL_MAP_def locality_names)

lemma aggregate_value_tied:
  assumes "snd (aggregate_locality nd web pages locality s) = Inr v"
  shows "\<exists>prices. snd (scrape_pages nd web s [1..pages] []) = Inr prices \<and>
     (prices = [] \<and> v = default_price locality \<or>
      prices \<noteq> [] \<and> (\<exists>x. mean prices = Inr x \<and> v = PyFloat x))"
proof (cases "snd (scrape_pages nd web s [1..pages] [])")
  case (Inl e)
  with assms show ?thesis by (simp add: snd_aggregate exn_bind_def)
next
  case (Inr prices)
  with assms have "locality_price locality prices = Inr v"
    by (simp add: snd_aggregate exn_bind_def)
  then have "prices = [] \<and> v = default_price locality \<or>
      prices \<noteq> [] \<and> (\<exists>x. mean prices = Inr x \<and> v = PyFloat x)"
    by (auto simp add: locality_price_def exn_bind_def split: if_splits sum.splits)
  with Inr show ?thesis by blast
qed

lemma entries_tied:
  assumes "snd (scrape_market_prices nd web pages cb) = Inr m"
    and "(locality, s) \<in> set LOCALITY_URL_MAP"
  shows "\<exists>prices. snd (scrape_pages nd web s [1..pages] []) = Inr prices \<and>
     (prices = [] \<and> m locality = Some (default_price locality) \<or>
      prices \<noteq> [] \<and> (\<exists>x. mean prices = Inr x \<and> m locality = Some (PyFloat x)))"
proof -
  from assms(1) have "snd (survey_loop nd web pages cb 5 0 LOCALITY_URL_MAP Map.empty) = Inr m"
    by (simp add: scrape_unfold)
  from survey_entries [OF this distinct_localities] assms(2) obtain v where
    v: "snd (aggregate_locality nd web pages locality s) = Inr v" "m locality = Some v" by blast
  from aggregate_value_tied [OF v(1)] v(2) show ?thesis by auto
qed

text \<open>
  C1. Whatever the pages give, a mapping that the survey returns has the five localities
  of the table as its keys, no more and no fewer, and the entry of a locality of the table
  is what lines 94 to 99 give for the prices that the page loop collects for the URL
  segment of that locality in this run: the static default of the locality when it
  collects none, the mean of the collected prices otherwise. The survey does return a
  mapping whenever no page raises an exception other than a \<^verbatim>\<open>RequestException\<close>, the
  callback, if there is one, returns normally, and the pages are of a size (at most \<open>B\<close>
  listings each, with \<open>pages * B\<close> below \<open>2 ^ 1023\<close>) for which the length of the list of
  prices is in the range of the floats.
\<close>

theorem survey_covers_localities:
  "(\<forall>m. snd (scrape_market_prices nd web pages cb) = Inr m \<longrightarrow>
      dom m = {Lodz_Baluty, Lodz_Gorna, Lodz_Srodmiescie, Lodz_Widzew, Lodz_Polesie} \<and>
      card (dom m) = 5 \<and>
      (\<forall>locality url_suffix. (locality, url_suffix) \<in> set LOCALITY_URL_MAP \<longrightarrow>
         (\<exists>prices. snd (scrape_pages nd web url_suffix [1..pages] []) = Inr prices \<and>
            (prices = [] \<and> m locality = Some (default_price locality) \<or>
             prices \<noteq> [] \<and> (\<exists>x. mean prices = Inr x \<and> m locality = Some (PyFloat x))))) \<and>
      (\<forall>locality v. m locality = Some v \<longrightarrow>
         v = default_price locality \<or>
         (\<exists>prices x. prices \<noteq> [] \<and> mean prices = Inr x \<and> v = PyFloat x))) \<and>
   ((\<forall>s p msg. web s p \<noteq> OtherException msg) \<and>
    (\<forall>s p ls. web s p = Page ls \<longrightarrow> length ls \<le> B) \<and> nat pages * B < 2 ^ 1023 \<and>
    (\<forall>f. cb = Some f \<longrightarrow> (\<forall>x message. f x message = None)) \<longrightarrow>
      (\<exists>m. snd (scrape_market_prices nd web pages cb) = Inr m))"
proof -
  have a: "dom m = {Lodz_Baluty, Lodz_Gorna, Lodz_Srodmiescie, Lodz_Widzew, Lodz_Polesie} \<and>
      card (dom m) = 5 \<and>
      (\<forall>locality url_suffix. (locality, url_suffix) \<in> set LOCALITY_URL_MAP \<longrightarrow>
         (\<exists>prices. snd (scrape_pages nd web url_suffix [1..pages] []) = Inr prices \<and>
            (prices = [] \<and> m locality = Some (default_price locality) \<or>
             prices \<noteq> [] \<and> (\<exists>x. mean prices = Inr x \<and> m locality = Some (PyFloat x))))) \<and>
      (\<forall>locality v. m locality = Some v \<longrightarrow>
         v = default_price locality \<or>
         (\<exists>prices x. prices \<noteq> [] \<and> mean prices = Inr x \<and> v = PyFloat x))"
    if ret: "snd (scrape_market_prices nd web pages cb) = Inr m" for m
  proof -
    from ret have "snd (survey_loop nd web pages cb 5 0 LOCALITY_URL_MAP Map.empty) = Inr m"
      by (simp add: scrape_unfold)
    from survey_result [OF this]
    have d: "dom m = {Lodz_Baluty, Lodz_Gorna, Lodz_Srodmiescie, Lodz_Widzew, Lodz_Polesie}"
      and v: "\<forall>locality v. m locality = Some v \<longrightarrow> (\<exists>prices. locality_price locality prices = Inr v)"
      by (simp_all add: known_localities)
    from v have loose: "\<forall>locality v. m locality = Some v \<longrightarrow>
         v = default_price locality \<or>
         (\<exists>prices x. prices \<noteq> [] \<and> mean prices = Inr x \<and> v = PyFloat x)"
      by (blast dest: locality_price_cases)
    have tied: "\<forall>locality url_suffix. (locality, url_suffix) \<in> set LOCALITY_URL_MAP \<longrightarrow>
         (\<exists>prices. snd (scrape_pages nd web url_suffix [1..pages] []) = Inr prices \<and>
            (prices = [] \<and> m locality = Some (default_price locality) \<or>
             prices \<noteq> [] \<and> (\<exists>x. mean prices = Inr x \<and> m locality = Some (PyFloat x))))"
      using entries_tied [OF ret] by blast
    from d loose tied show ?thesis by (simp add: card_known_localities)
  qed
  have b: "\<exists>m. snd (scrape_market_prices nd web pages cb) = Inr m"
    if w: "\<forall>s p msg. web s p \<noteq> OtherException msg"
      and l: "\<forall>s p ls. web s p = Page ls \<longrightarrow> length ls \<le> B"
      and p: "nat pages * B < 2 ^ 1023"
      and c: "\<forall>f. cb = Some f \<longrightarrow> (\<forall>x message. f x message = None)"
  proof -
    from survey_returns [OF w l p, of nd 5 0 LOCALITY_URL_MAP Map.empty]
    have n: "\<exists>m. snd (scrape_market_prices nd web pages None) = Inr m"
      by (simp add: scrape_unfold)
    show ?thesis
    proof (cases cb)
      case None
      with n show ?thesis by simp
    next
      case (Some f)
      with c have "\<forall>x message. f x message = None" by simp
      from callback_irrelevant [OF this fractions_defined, of nd web pages Map.empty] n Some
      show ?thesis by (simp add: scrape_unfold)
    qed
  qed
  show ?thesis using a b by blast
qed

text \<open>
  The scenario of the specification: one locality with the prices 100 and 300 on its only
  page, every other request failing, and no callback. The page loop collects the two
  prices for the second locality and none for the first.
\<close>

theorem survey_covers_localities_witness:
  "snd (scrape_market_prices [48] web_mixed 8 None) =
     Inr (Map.empty(Lodz_Baluty \<mapsto> PyInt 380000, Lodz_Gorna \<mapsto> PyFloat (Finite 200),
       Lodz_Srodmiescie \<mapsto> PyInt 500000, Lodz_Widzew \<mapsto> PyInt 450000,
       Lodz_Polesie \<mapsto> PyInt 400000)) \<and>
   dom (Map.empty(Lodz_Baluty \<mapsto> PyInt 380000, Lodz_Gorna \<mapsto> PyFloat (Finite 200),
       Lodz_Srodmiescie \<mapsto> PyInt 500000, Lodz_Widzew \<mapsto> PyInt 450000,
       Lodz_Polesie \<mapsto> PyInt 400000)) =
     {Lodz_Baluty, Lodz_Gorna, Lodz_Srodmiescie, Lodz_Widzew, Lodz_Polesie} \<and>
   snd (scrape_pages [48] web_mixed (cps ''lodz-gorna'') [1..8] []) = Inr [Finite 100, Finite 300] \<and>
   mean [Finite 100, Finite 300] = Inr (Finite 200) \<and>
   snd (scrape_pages [48] web_mixed (cps ''lodz-baluty'') [1..8] []) = Inr []"
  using survey_covers_localities [of "[48]" web_mixed 8 None 2]
  by (simp add: scrape_unfold LOCALITY_URL_MAP_def aggregate_locality_def lift_def ret_def
      web_mixed_def default_prices eval_prices eval_mean)

section \<open>The survey button\<close>

lemma shown_no_error: "list_all (\<lambda>u. \<not> is_error u) (concat (map shown t))"
proof (induction t)
  case Nil
  then show ?case by simp
next
  case (Cons a t)
  then show ?case by (cases a) simp_all
qed

text \<open>
  C7. When the survey raises an exception, \<open>main\<close> catches it: the market prices of the
  session stay what they were after the initialisation (the mapping held before, or the
  defaults in a new session), the time of the last survey stays as well, the survey is no
  longer in progress, and the sidebar ends with the two error messages, the first with the
  text of the exception; nothing before them is an error message.
\<close>

theorem survey_failure_keeps_prices:
  assumes "snd (scrape_market_prices nd web 8 (Some update_progress)) = Inl e"
  shows "st_market_prices (snd (main nd web now True st)) =
       Some (case st_market_prices st of None \<Rightarrow> map_of DEFAULT_MARKET_PRICES | Some held \<Rightarrow> held) \<and>
     st_last_scraped (snd (main nd web now True st)) = st_last_scraped (init_session_state st) \<and>
     st_scraping_in_progress (snd (main nd web now True st)) = Some False \<and>
     (\<exists>bar. fst (main nd web now True st) =
        bar @ [SidebarError (cps ''B'' @ [322, 261] @ cps ''d podczas scrapowania: '' @ exn_str e),
               StatusError ([10060] @ cps '' B'' @ [322, 261] @ cps ''d podczas scrapowania'')] \<and>
        list_all (\<lambda>u. \<not> is_error u) bar)"
proof -
  let ?bar = "ProgressBar (PyInt 0) #
    concat (map shown (fst (scrape_market_prices nd web 8 (Some update_progress))))"
  have "list_all (\<lambda>u. \<not> is_error u) ?bar" by (simp add: shown_no_error)
  moreover have "fst (main nd web now True st) =
      ?bar @ [SidebarError (cps ''B'' @ [322, 261] @ cps ''d podczas scrapowania: '' @ exn_str e),
              StatusError ([10060] @ cps '' B'' @ [322, 261] @ cps ''d podczas scrapowania'')]"
    using assms by (simp add: main_def on_scrape_button_def Let_def)
  ultimately have "\<exists>bar. fst (main nd web now True st) =
        bar @ [SidebarError (cps ''B'' @ [322, 261] @ cps ''d podczas scrapowania: '' @ exn_str e),
               StatusError ([10060] @ cps '' B'' @ [322, 261] @ cps ''d podczas scrapowania'')] \<and>
        list_all (\<lambda>u. \<not> is_error u) bar" by blast
  then show ?thesis
    using assms
    by (simp add: main_def on_scrape_button_def Let_def init_session_state_def split: option.split)
qed

lemma scrape_web_broken:
  "scrape_market_prices nd web_broken 8 (Some update_progress) =
     ([Progress (Finite (5764607523034235 / 288230376151711744))
         (cps ''Scrapowanie '' @ Lodz_Baluty @ cps ''...''),
       Get (cps ''lodz-baluty'') 1], Inl (Raised (cps ''boom'')))"
  by (simp add: scrape_unfold LOCALITY_URL_MAP_def notify_quiet [OF update_progress_quiet [rule_format]]
      fraction_values aggregate_locality_def upto_one_numeral web_broken_def)

text \<open>A new session in which every page raises.\<close>

theorem survey_failure_keeps_prices_witness:
  "snd (scrape_market_prices [48] web_broken 8 (Some update_progress)) = Inl (Raised (cps ''boom'')) \<and>
   st_market_prices (snd (main [48] web_broken 0 True new_session)) =
     Some (map_of DEFAULT_MARKET_PRICES) \<and>
   st_scraping_in_progress (snd (main [48] web_broken 0 True new_session)) = Some False"
  using survey_failure_keeps_prices [of "[48]" web_broken "Raised (cps ''boom'')" 0 new_session]
    scrape_web_broken [of "[48]"]
  by (simp add: new_session_def)

section \<open>The delay between the requests\<close>

text \<open>
  C9 does not hold of the code. \<^verbatim>\<open>time.sleep(0.5)\<close> is the last statement of the body of
  the \<^verbatim>\<open>try\<close>, after the loop over the listings: a fetch that fails is followed by the
  next request without a delay. With every request failing and two pages for each
  locality the survey makes its ten requests and no delay at all.
\<close>

theorem no_delay_after_failed_fetch:
  "fst (scrape_market_prices [48] web_down 2 None) =
     [Get (cps ''lodz-baluty'') 1, Get (cps ''lodz-baluty'') 2,
      Get (cps ''lodz-gorna'') 1, Get (cps ''lodz-gorna'') 2,
      Get (cps ''lodz-srodmiescie'') 1, Get (cps ''lodz-srodmiescie'') 2,
      Get (cps ''lodz-widzew'') 1, Get (cps ''lodz-widzew'') 2,
      Get (cps ''lodz-polesie'') 1, Get (cps ''lodz-polesie'') 2]"
  by (simp add: scrape_unfold LOCALITY_URL_MAP_def aggregate_all_fail [OF web_down_fails]
      upto_one_numeral)

end
